theory Spec2Isabelle
  imports Complex_Main "HOL-Library.Word"
begin

section \<open>Common data\<close>

text \<open>
  The Python exceptions the modelled code can raise. \<open>IndexError\<close> carries its
  message, since \<open>ReplayMemory.get_state\<close> is recognised by \<open>'Empty Memory'\<close>.
\<close>

datatype error =
    AssertionError string
  | IndexError string
  | ValueError string
  | KeyError
  | ZeroDivisionError

text \<open>
  A numpy array of floats: its shape and its elements in row-major order. A float is the
  real number it stands for. The rounding of the arithmetic is written out where a claim
  is about the value that comes out: the binary64 subtractions that anneal \<open>epsilon\<close>,
  and the float32 arrays of the replay memory, of the history and of the training
  target.
\<close>

record ndarray =
  shape :: "nat list"
  data :: "real list"

definition zeros :: "nat list \<Rightarrow> ndarray" where
  "zeros sh = \<lparr>shape = sh, data = replicate (prod_list sh) 0\<rparr>"

section \<open>Rounding\<close>

text \<open>
  \<open>fl\<close> is the rounding of IEEE 754 binary64 arithmetic, the Python float: to the nearest
  double, with ties to the even significand, for a result in the normal range. The spacing
  of the doubles around \<open>x\<close> is \<open>2\<close> to the power \<open>\<lfloor>log\<^sub>2 |x|\<rfloor> - 52\<close>.
\<close>

definition rne :: "real \<Rightarrow> int" where
  "rne y = (let f = \<lfloor>y\<rfloor>
            in if y - of_int f < 1 / 2 then f
               else if y - of_int f > 1 / 2 then f + 1
               else if even f then f else f + 1)"

definition ulp_exp :: "real \<Rightarrow> int" where
  "ulp_exp x = \<lfloor>log 2 \<bar>x\<bar>\<rfloor> - 52"

definition fl :: "real \<Rightarrow> real" where
  "fl x = (if x = 0 then 0 else of_int (rne (x / 2 powi ulp_exp x)) * 2 powi ulp_exp x)"

text \<open>
  \<open>fl32\<close> is the same rounding to binary32, numpy's float32: 24 significant bits, and
  the fixed spacing \<open>2\<^sup>-\<^sup>1\<^sup>4\<^sup>9\<close> of the subnormal numbers below \<open>2\<^sup>-\<^sup>1\<^sup>2\<^sup>6\<close>. The largest
  float32 is \<open>2\<^sup>1\<^sup>2\<^sup>8 - 2\<^sup>1\<^sup>0\<^sup>4\<close>; a result of magnitude \<open>2\<^sup>1\<^sup>2\<^sup>8 - 2\<^sup>1\<^sup>0\<^sup>3\<close> or more is
  infinite in numpy, which no real number stands for: \<open>fl32\<close> is the float32 result
  of the values that are \<open>float32_finite\<close>. \<open>astype_float32\<close> is the cast of an array
  that is written into a float32 array.
\<close>

definition ulp_exp32 :: "real \<Rightarrow> int" where
  "ulp_exp32 x = max (\<lfloor>log 2 \<bar>x\<bar>\<rfloor> - 23) (- 149)"

definition fl32 :: "real \<Rightarrow> real" where
  "fl32 x = (if x = 0 then 0 else of_int (rne (x / 2 powi ulp_exp32 x)) * 2 powi ulp_exp32 x)"


definition astype_float32 :: "ndarray \<Rightarrow> ndarray" where
  "astype_float32 a = a\<lparr>data := map fl32 (data a)\<rparr>"

section \<open>ReplayMemory (DQNAgentSim.py)\<close>

record replay_memory =
  pos :: nat
  count :: nat
  max_size :: nat
  history_length :: nat
  state_shape :: "nat list"
  states :: "ndarray list"
  actions :: "8 word list"
  rewards :: "real list"
  terminals :: "real list"

text \<open>
  \<open>ReplayMemory.__init__\<close>. \<open>size\<close> is a natural number: \<open>np.zeros\<close> rejects a
  negative size before any memory exists. \<open>history_length\<close> is a Python int, floored
  to 1.
\<close>

definition ReplayMemory :: "nat \<Rightarrow> nat list \<Rightarrow> int \<Rightarrow> replay_memory" where
  "ReplayMemory sz sample_shape hl =
     \<lparr>pos = 0, count = 0, max_size = sz,
      history_length = nat (max 1 hl),
      state_shape = sample_shape,
      states = replicate sz (zeros sample_shape),
      actions = replicate sz 0,
      rewards = replicate sz 0,
      terminals = replicate sz 0\<rparr>"

text \<open>\<open>ReplayMemory.__len__\<close>.\<close>

definition len :: "replay_memory \<Rightarrow> nat" where
  "len m = count m"

text \<open>
  \<open>ReplayMemory.append\<close>. The assertion on the shape comes first; the four writes at
  \<open>_pos\<close> raise IndexError when the cursor is outside the arrays (only a memory of
  capacity 0 gets there); the state and the reward are stored in float32 arrays, the
  action in a uint8 array, the flag \<open>done\<close> in a float32 array as 1.0 or 0.0.
\<close>

definition memory_append :: "replay_memory \<Rightarrow> ndarray \<Rightarrow> int \<Rightarrow> real \<Rightarrow> bool \<Rightarrow> error + replay_memory" where
  "memory_append m state action reward done =
     (if shape state \<noteq> state_shape m then Inl (AssertionError ''Invalid state shape'')
      else if pos m \<ge> length (states m) \<or> pos m \<ge> length (actions m)
              \<or> pos m \<ge> length (rewards m) \<or> pos m \<ge> length (terminals m)
        then Inl (IndexError ''index out of bounds'')
      else if max_size m = 0 then Inl ZeroDivisionError
      else Inr (m\<lparr>states := (states m)[pos m := astype_float32 state],
                   actions := (actions m)[pos m := word_of_int action],
                   rewards := (rewards m)[pos m := fl32 reward],
                   terminals := (terminals m)[pos m := (if done then 1 else 0)],
                   count := max (count m) (pos m + 1),
                   pos := (pos m + 1) mod max_size m\<rparr>))"

text \<open>A transition as the driver hands it to \<open>append\<close>, and a run of appends.\<close>

type_synonym transition = "ndarray \<times> int \<times> real \<times> bool"

fun appends :: "replay_memory \<Rightarrow> transition list \<Rightarrow> error + replay_memory" where
  "appends m [] = Inr m"
| "appends m ((s, a, r, d) # ts) =
     (case memory_append m s a r d of Inl e \<Rightarrow> Inl e | Inr m' \<Rightarrow> appends m' ts)"

text \<open>
  Python slicing \<open>xs[lo:hi]\<close> with integer bounds: a negative bound counts from the
  end, and both are clipped to the list.
\<close>

definition slice_bound :: "nat \<Rightarrow> int \<Rightarrow> nat" where
  "slice_bound n i = (if i < 0 then nat (max 0 (i + int n)) else min (nat i) n)"

definition py_slice :: "'a list \<Rightarrow> int \<Rightarrow> int \<Rightarrow> 'a list" where
  "py_slice xs lo hi = drop (slice_bound (length xs) lo) (take (slice_bound (length xs) hi) xs)"

text \<open>\<open>np.arange(a, b)\<close> on integers.\<close>

definition arange :: "int \<Rightarrow> int \<Rightarrow> int list" where
  "arange a b = [a..b - 1]"

text \<open>
  \<open>xs.take(indexes, mode='wrap', axis=0)\<close>: every index is reduced modulo the length
  of the axis; a non-empty take from an empty axis raises IndexError.
\<close>

definition take_wrap :: "'a list \<Rightarrow> int list \<Rightarrow> error + 'a list" where
  "take_wrap xs indexes =
     (if xs = [] \<and> indexes \<noteq> [] then Inl (IndexError ''cannot do a non-empty take from an empty axes.'')
      else Inr (map (\<lambda>i. xs ! nat (i mod int (length xs))) indexes))"

text \<open>\<open>ReplayMemory.get_state\<close>.\<close>

definition get_state :: "replay_memory \<Rightarrow> int \<Rightarrow> error + ndarray list" where
  "get_state m index0 =
     (if count m = 0 then Inl (IndexError ''Empty Memory'')
      else
        let index = index0 mod int (count m);
            hl = int (history_length m)
        in if index \<ge> hl then Inr (py_slice (states m) (index - (hl - 1)) (index + 1))
           else take_wrap (states m) (arange (index - hl + 1) (index + 1)))"

text \<open>
  The memories the constructor and \<open>append\<close> produce: the arrays have the capacity's
  length, the count does not exceed it, the history is at least one frame long.
\<close>

definition wf_memory :: "replay_memory \<Rightarrow> bool" where
  "wf_memory m \<longleftrightarrow>
     length (states m) = max_size m \<and> length (actions m) = max_size m \<and>
     length (rewards m) = max_size m \<and> length (terminals m) = max_size m \<and>
     count m \<le> max_size m \<and> 1 \<le> history_length m \<and>
     (pos m < max_size m \<or> max_size m = 0)"

text \<open>
  \<open>ReplayMemory.sample\<close>. The draws of \<open>np.random.randint(history_len, count)\<close> are
  an argument, in the order the loop takes them; the loop has no bound of its own, and
  \<open>None\<close> says that the draws ran out before \<open>size\<close> indexes were accepted.
  \<open>randint\<close> raises ValueError when its range is empty.
\<close>

fun sample_loop :: "replay_memory \<Rightarrow> nat \<Rightarrow> int list \<Rightarrow> int list \<Rightarrow> (error + int list) option" where
  "sample_loop m n [] indexes =
     (if length indexes < n
      then (if int (history_length m) \<ge> int (count m) - 1 then Some (Inl (ValueError ''low >= high''))
            else None)
      else Some (Inr indexes))"
| "sample_loop m n (index # draws) indexes =
     (if length indexes < n
      then (if int (history_length m) \<ge> int (count m) - 1 then Some (Inl (ValueError ''low >= high''))
            else if index \<notin> set indexes
                    \<and> \<not> (index \<ge> int (pos m) \<and> int (pos m) > index - int (history_length m))
                    \<and> \<not> (\<exists>x \<in> set (py_slice (terminals m) (index - int (history_length m)) index). x \<noteq> 0)
              then sample_loop m n draws (indexes @ [index])
              else sample_loop m n draws indexes)
      else Some (Inr indexes))"

definition sample :: "replay_memory \<Rightarrow> nat \<Rightarrow> int list \<Rightarrow> (error + int list) option" where
  "sample m n draws = sample_loop m n draws []"

text \<open>
  \<open>xs[indexes]\<close> with a list of integer indexes: a negative index counts from the end,
  an index outside the array raises IndexError.
\<close>

fun fancy_index :: "'a list \<Rightarrow> int list \<Rightarrow> error + 'a list" where
  "fancy_index xs [] = Inr []"
| "fancy_index xs (i # is) =
     (let j = (if i < 0 then i + int (length xs) else i)
      in if 0 \<le> j \<and> j < int (length xs)
         then (case fancy_index xs is of Inl e \<Rightarrow> Inl e | Inr ys \<Rightarrow> Inr (xs ! nat j # ys))
         else Inl (IndexError ''index out of bounds''))"

text \<open>A list comprehension over a function that can raise stops at the first exception.\<close>

fun map_err :: "('a \<Rightarrow> error + 'b) \<Rightarrow> 'a list \<Rightarrow> error + 'b list" where
  "map_err f [] = Inr []"
| "map_err f (x # xs) =
     (case f x of Inl e \<Rightarrow> Inl e
      | Inr y \<Rightarrow> (case map_err f xs of Inl e \<Rightarrow> Inl e | Inr ys \<Rightarrow> Inr (y # ys)))"

text \<open>\<open>ReplayMemory.minibatch\<close>.\<close>

type_synonym batch = "ndarray list list \<times> 8 word list \<times> ndarray list list \<times> real list \<times> real list"

definition minibatch :: "replay_memory \<Rightarrow> nat \<Rightarrow> int list \<Rightarrow> (error + batch) option" where
  "minibatch m n draws =
     (case sample m n draws of
        None \<Rightarrow> None
      | Some (Inl e) \<Rightarrow> Some (Inl e)
      | Some (Inr indexes) \<Rightarrow>
          Some (case map_err (get_state m) indexes of Inl e \<Rightarrow> Inl e | Inr pre_states \<Rightarrow>
               (case map_err (\<lambda>index. get_state m (index + 1)) indexes of Inl e \<Rightarrow> Inl e | Inr post_states \<Rightarrow>
               (case fancy_index (actions m) indexes of Inl e \<Rightarrow> Inl e | Inr acts \<Rightarrow>
               (case fancy_index (rewards m) indexes of Inl e \<Rightarrow> Inl e | Inr rews \<Rightarrow>
               (case fancy_index (terminals m) indexes of Inl e \<Rightarrow> Inl e | Inr dones \<Rightarrow>
                  Inr (pre_states, acts, post_states, rews, dones)))))))"

section \<open>History (DQNAgentSim.py)\<close>

text \<open>
  The buffer of \<open>History\<close> is an array whose first axis runs over the frames; it is the
  list of its frames here. \<open>History(shape)\<close> is part of \<open>DeepQAgent.__init__\<close> below.
  \<open>append\<close> shifts the frames and writes the last one, cast to the buffer's float32,
  which raises IndexError on a buffer with no frame; the caller passes a state of the
  frames' shape.
\<close>

definition history_append :: "ndarray list \<Rightarrow> ndarray \<Rightarrow> error + ndarray list" where
  "history_append buffer state =
     (if buffer = [] then Inl (IndexError ''index -1 is out of bounds'')
      else Inr (tl buffer @ [astype_float32 state]))"

definition history_reset :: "ndarray list \<Rightarrow> ndarray list" where
  "history_reset buffer = map (\<lambda>f. f\<lparr>data := map (\<lambda>_. 0) (data f)\<rparr>) buffer"

section \<open>DeepQAgent (DQNAgentSim.py)\<close>

definition STATE_LENGTH :: nat where "STATE_LENGTH = 4"
definition GAMMA :: real where "GAMMA = fl (99 / 100)"
definition EXPLORATION_STEPS :: nat where "EXPLORATION_STEPS = 10000"
definition INITIAL_EPSILON :: real where "INITIAL_EPSILON = 1"
definition FINAL_EPSILON :: real where "FINAL_EPSILON = fl (1 / 10)"
definition INITIAL_REPLAY_SIZE :: nat where "INITIAL_REPLAY_SIZE = 10000"
definition MEMORY_SIZE :: nat where "MEMORY_SIZE = 400000"
definition BATCH_SIZE :: nat where "BATCH_SIZE = 64"
definition TARGET_UPDATE_INTERVAL :: nat where "TARGET_UPDATE_INTERVAL = 10000"
definition TRAIN_AFTER :: nat where "TRAIN_AFTER = 500"
definition TRAIN_INTERVAL :: nat where "TRAIN_INTERVAL = 4"
definition SAVE_INTERVAL :: nat where "SAVE_INTERVAL = 10000"
definition SAVE_NETWORK_PATH :: string where "SAVE_NETWORK_PATH = ''models_sim''"

text \<open>
  What the agent leaves outside itself: the summaries it writes, the checkpoints it
  saves, the lines it prints. The runs of the two TensorFlow operations that change
  the networks are recorded as well, so that "an update occurred" can be read off.
\<close>

datatype event =
    WriteSummary "real list" nat
  | PrintEpisode nat nat nat real real real real string
  | PrintTrain nat nat nat
  | RunGradsUpdate
  | RunUpdateTargetNetwork
  | SaveCheckpoint string nat

text \<open>
  The Keras networks and the optimizer are outside the repository. A network is known
  by its weights \<open>'w\<close>; \<open>q_eval w window\<close> is the row of Q-values the network with
  weights \<open>w\<close> gives for one window of frames, and \<open>minimize w states actions ys\<close> the
  weights after one RMSProp step on a batch.
\<close>

record 'w backend =
  q_eval :: "'w \<Rightarrow> ndarray list \<Rightarrow> real list"
  minimize :: "'w \<Rightarrow> ndarray list list \<Rightarrow> 8 word list \<Rightarrow> real list \<Rightarrow> 'w"

record 'w agent =
  t :: nat
  epsilon :: real
  epsilon_step :: real
  total_reward :: real
  total_q_max :: real
  total_loss :: real
  duration :: nat
  episode :: nat
  input_shape :: "nat list"
  nb_actions :: int
  history :: "ndarray list"
  memory :: replay_memory
  num_actions_taken :: nat
  q_network :: 'w
  target_network :: 'w
  trace :: "event list"

text \<open>
  \<open>DeepQAgent.__init__\<close>, with the freshly initialised weights of the two networks as
  arguments. The recurrent first layer takes an input of two axes, (frames, features);
  any other \<open>input_shape\<close> fails when the network is built. The target network starts
  as a copy of the online one.
\<close>

definition DeepQAgent :: "nat list \<Rightarrow> int \<Rightarrow> 'w \<Rightarrow> 'w \<Rightarrow> error + 'w agent" where
  "DeepQAgent shp n w wt =
     (case shp of
        [frames, features] \<Rightarrow>
          Inr \<lparr>t = 0,
               epsilon = INITIAL_EPSILON,
               epsilon_step = fl (fl (INITIAL_EPSILON - FINAL_EPSILON) / real EXPLORATION_STEPS),
               total_reward = 0, total_q_max = 0, total_loss = 0,
               duration = 0, episode = 0,
               input_shape = shp, nb_actions = n,
               history = replicate frames (zeros [features]),
               memory = ReplayMemory MEMORY_SIZE [features] (int STATE_LENGTH),
               num_actions_taken = 0,
               q_network = w, target_network = w,
               trace = []\<rparr>
      | _ \<Rightarrow> Inl (ValueError ''Input 0 is incompatible with layer lstm''))"

text \<open>\<open>np.argmax\<close> and \<open>np.max\<close> of a row: both raise ValueError on an empty one.\<close>

fun argmax_from :: "real list \<Rightarrow> nat \<Rightarrow> nat \<Rightarrow> real \<Rightarrow> nat" where
  "argmax_from [] i best v = best"
| "argmax_from (x # xs) i best v =
     (if x > v then argmax_from xs (i + 1) i x else argmax_from xs (i + 1) best v)"

definition argmax :: "real list \<Rightarrow> error + int" where
  "argmax q = (case q of [] \<Rightarrow> Inl (ValueError ''attempt to get argmax of an empty sequence'')
               | x # xs \<Rightarrow> Inr (int (argmax_from xs 1 0 x)))"

definition np_max :: "real list \<Rightarrow> error + real" where
  "np_max q = (case q of [] \<Rightarrow> Inl (ValueError ''zero-size array to reduction operation maximum'')
               | x # xs \<Rightarrow> Inr (fold max xs x))"

text \<open>
  The annealing step of \<open>act\<close>: one binary64 subtraction, behind the guard of the source.
\<close>

definition anneal :: "'w agent \<Rightarrow> 'w agent" where
  "anneal a =
     (if epsilon a > FINAL_EPSILON \<and> t a \<ge> INITIAL_REPLAY_SIZE
      then a\<lparr>epsilon := fl (epsilon a - epsilon_step a)\<rparr>
      else a)"

text \<open>
  \<open>DeepQAgent.act\<close>. The two random draws are arguments: \<open>u\<close> is what
  \<open>random.random()\<close> returns and \<open>r\<close> what \<open>random.randrange(nb_actions)\<close> returns
  when it is called; \<open>randrange\<close> raises ValueError on an empty range.
\<close>

definition act :: "'w backend \<Rightarrow> 'w agent \<Rightarrow> ndarray \<Rightarrow> real \<Rightarrow> int \<Rightarrow> error + (int \<times> 'w agent)" where
  "act be a state u r =
     (case history_append (history a) state of
        Inl e \<Rightarrow> Inl e
      | Inr h \<Rightarrow>
          let a1 = a\<lparr>history := h\<rparr>
          in case (if epsilon a1 \<ge> u \<or> t a1 < INITIAL_REPLAY_SIZE
                   then (if nb_actions a1 \<le> 0 then Inl (ValueError ''empty range for randrange()'')
                         else Inr r)
                   else argmax (q_eval be (q_network a1) (history a1))) of
               Inl e \<Rightarrow> Inl e
             | Inr action \<Rightarrow>
                 let a2 = anneal a1
                 in Inr (action, a2\<lparr>num_actions_taken := num_actions_taken a2 + 1\<rparr>))"

text \<open>The label of the episode summary.\<close>

definition mode :: "nat \<Rightarrow> string" where
  "mode step =
     (if step < INITIAL_REPLAY_SIZE then ''random''
      else if INITIAL_REPLAY_SIZE \<le> step \<and> step < INITIAL_REPLAY_SIZE + EXPLORATION_STEPS then ''explore''
      else ''exploit'')"

text \<open>
  \<open>DeepQAgent.observe\<close>. The division of the summary cannot fail: \<open>duration\<close> has just
  been incremented. An exception of \<open>ReplayMemory.append\<close> ends the call, and the
  driver with it.
\<close>

definition observe :: "'w backend \<Rightarrow> 'w agent \<Rightarrow> ndarray \<Rightarrow> int \<Rightarrow> real \<Rightarrow> bool \<Rightarrow> error + 'w agent" where
  "observe be a old_state action reward done =
     (let a1 = a\<lparr>total_reward := total_reward a + reward\<rparr>;
          a2 = a1\<lparr>total_reward := total_reward a1 + reward\<rparr>
      in case np_max (q_eval be (q_network a2) (history a2)) of
           Inl e \<Rightarrow> Inl e
         | Inr q \<Rightarrow>
             let a3 = a2\<lparr>total_q_max := total_q_max a2 + q, duration := duration a2 + 1\<rparr>;
                 a4 = (if done
                       then
                         let stats = [total_reward a3, total_q_max a3 / real (duration a3),
                                      real (duration a3),
                                      total_loss a3 / (real (duration a3) / real TRAIN_INTERVAL)];
                             written = (if t a3 \<ge> INITIAL_REPLAY_SIZE
                                        then [WriteSummary stats (episode a3 + 1)] else []);
                             printed = [PrintEpisode (episode a3 + 1) (t a3) (duration a3) (epsilon a3)
                                          (total_reward a3) (total_q_max a3 / real (duration a3))
                                          (total_loss a3 / real (duration a3)) (mode (t a3))]
                         in a3\<lparr>trace := trace a3 @ written @ printed,
                               total_reward := 0, total_q_max := 0, total_loss := 0,
                               duration := 0, episode := episode a3 + 1,
                               history := history_reset (history a3)\<rparr>
                       else a3)
             in case memory_append (memory a4) old_state action reward done of
                  Inl e \<Rightarrow> Inl e
                | Inr m \<Rightarrow> Inr (a4\<lparr>memory := m\<rparr>))"

text \<open>
  The training target of \<open>train_network\<close>,
  \<open>reward_batch + (1 - terminal_batch) * self.GAMMA * np.max(target_q_values_batch, axis=1)\<close>,
  element by element over the three arrays, which have the length of the batch. The
  arrays are float32 and the Python float \<open>GAMMA\<close> does not widen them: \<open>GAMMA\<close> enters
  as a float32, and the subtraction, the two products and the sum are each rounded to
  float32, in the order in which Python evaluates them. The maximum over the actions
  raises ValueError when a row has no action.
\<close>

fun y_batch :: "real list \<Rightarrow> real list \<Rightarrow> real list list \<Rightarrow> error + real list" where
  "y_batch (r # rs) (d # ds) (q # qs) =
     (case np_max q of
        Inl e \<Rightarrow> Inl e
      | Inr mx \<Rightarrow> (case y_batch rs ds qs of
                     Inl e \<Rightarrow> Inl e
                   | Inr ys \<Rightarrow>
                       Inr (fl32 (r + fl32 (fl32 (fl32 (1 - d) * fl32 GAMMA) * mx)) # ys)))"
| "y_batch [] [] [] = Inr []"
| "y_batch _ _ _ = Inl (ValueError ''operands could not be broadcast together'')"


text \<open>
  The loss of \<open>build_training_op\<close>: the Q-value of the action taken (a one-hot row
  outside the actions selects nothing), the clipped error, its mean over the batch.
  TensorFlow computes it; it is given here by its formula over the reals, and only
  \<open>total_loss\<close> depends on it.
\<close>

definition q_value :: "real list \<Rightarrow> 8 word \<Rightarrow> real" where
  "q_value q a = (if unat a < length q then q ! unat a else 0)"

definition clipped_error :: "real \<Rightarrow> real \<Rightarrow> real" where
  "clipped_error y q =
     (let err = \<bar>y - q\<bar>;
          quadratic_part = max 0 (min err 1);
          linear_part = err - quadratic_part
      in 1 / 2 * quadratic_part ^ 2 + linear_part)"

definition loss :: "real list list \<Rightarrow> 8 word list \<Rightarrow> real list \<Rightarrow> real" where
  "loss qs acts ys =
     sum_list (map (\<lambda>(q, a, y). clipped_error y (q_value q a)) (zip qs (zip acts ys)))
       / real (length ys)"

text \<open>
  \<open>DeepQAgent.train_network\<close>. \<open>None\<close> is a sampling loop that the given draws do not
  finish.
\<close>

definition train_network :: "'w backend \<Rightarrow> 'w agent \<Rightarrow> int list \<Rightarrow> (error + 'w agent) option" where
  "train_network be a draws =
     (case minibatch (memory a) BATCH_SIZE draws of
        None \<Rightarrow> None
      | Some (Inl e) \<Rightarrow> Some (Inl e)
      | Some (Inr (state_batch, action_batch, next_state_batch, reward_batch, terminal_batch)) \<Rightarrow>
          let target_q_values_batch = map (q_eval be (target_network a)) next_state_batch
          in case y_batch reward_batch terminal_batch target_q_values_batch of
               Inl e \<Rightarrow> Some (Inl e)
             | Inr ys \<Rightarrow>
                 let l = loss (map (q_eval be (q_network a)) state_batch) action_batch ys
                 in Some (Inr (a\<lparr>q_network := minimize be (q_network a) state_batch action_batch ys,
                                  total_loss := total_loss a + l,
                                  trace := trace a @ [RunGradsUpdate]\<rparr>)))"

text \<open>\<open>DeepQAgent.train\<close>.\<close>

definition train :: "'w backend \<Rightarrow> 'w agent \<Rightarrow> int list \<Rightarrow> (error + 'w agent) option" where
  "train be a draws =
     (let agent_step = num_actions_taken a
      in if agent_step \<ge> TRAIN_AFTER
         then
           if agent_step mod TRAIN_INTERVAL = 0
           then
             let a1 = a\<lparr>trace := trace a @ [PrintTrain (episode a) (t a) agent_step]\<rparr>
             in case (if t a1 \<ge> INITIAL_REPLAY_SIZE
                      then
                        (case (if t a1 mod TRAIN_INTERVAL = 0 then train_network be a1 draws
                               else Some (Inr a1)) of
                           None \<Rightarrow> None
                         | Some (Inl e) \<Rightarrow> Some (Inl e)
                         | Some (Inr a2) \<Rightarrow>
                             let a3 = (if t a2 mod TARGET_UPDATE_INTERVAL = 0
                                       then a2\<lparr>target_network := q_network a2,
                                               trace := trace a2 @ [RunUpdateTargetNetwork]\<rparr>
                                       else a2);
                                 a4 = (if t a3 mod SAVE_INTERVAL = 0
                                       then a3\<lparr>trace := trace a3 @ [SaveCheckpoint (SAVE_NETWORK_PATH @ ''/chkpnt'') (t a3)]\<rparr>
                                       else a3)
                             in Some (Inr a4))
                      else Some (Inr a1)) of
                  None \<Rightarrow> None
                | Some (Inl e) \<Rightarrow> Some (Inl e)
                | Some (Inr a5) \<Rightarrow> Some (Inr (a5\<lparr>t := t a5 + 1\<rparr>))
           else Some (Inr a)
         else Some (Inr a))"

text \<open>\<open>DeepQAgent.test\<close>: the greedy action once \<open>STATE_LENGTH\<close> states were seen.\<close>

definition test :: "'w backend \<Rightarrow> 'w agent \<Rightarrow> ndarray \<Rightarrow> error + (int option \<times> 'w agent)" where
  "test be a state =
     (let a1 = a\<lparr>t := t a + 1\<rparr>
      in case history_append (history a1) state of
           Inl e \<Rightarrow> Inl e
         | Inr h \<Rightarrow>
             let a2 = a1\<lparr>history := h\<rparr>
             in if t a2 \<ge> STATE_LENGTH
                then (case argmax (q_eval be (q_network a2) (history a2)) of
                        Inl e \<Rightarrow> Inl e
                      | Inr action \<Rightarrow> Inr (Some action, a2))
                else Inr (None, a2))"

text \<open>
  The agents the driver can hold: the constructed one, and what \<open>act\<close>, \<open>observe\<close>,
  \<open>train\<close> and \<open>test\<close> make of one when they return.
\<close>

inductive reachable :: "'w backend \<Rightarrow> 'w agent \<Rightarrow> bool" for be :: "'w backend" where
  init: "DeepQAgent shp n w wt = Inr a \<Longrightarrow> reachable be a"
| act: "reachable be a \<Longrightarrow> act be a state u r = Inr (action, a') \<Longrightarrow> reachable be a'"
| observe: "reachable be a \<Longrightarrow> observe be a old_state action reward done = Inr a' \<Longrightarrow> reachable be a'"
| train: "reachable be a \<Longrightarrow> train be a draws = Some (Inr a') \<Longrightarrow> reachable be a'"
| test: "reachable be a \<Longrightarrow> test be a state = Inr (action', a') \<Longrightarrow> reachable be a'"

section \<open>The annealing of epsilon, run on integers\<close>

text \<open>
  \<open>epsilon_after k\<close> is \<open>epsilon\<close> after \<open>k\<close> decrements of \<open>act\<close>, starting from
  \<open>INITIAL_EPSILON\<close>: each one is the binary64 subtraction of \<open>epsilon_step\<close>.
\<close>

fun epsilon_after :: "nat \<Rightarrow> real" where
  "epsilon_after 0 = INITIAL_EPSILON"
| "epsilon_after (Suc k) =
     fl (epsilon_after k - fl (fl (INITIAL_EPSILON - FINAL_EPSILON) / real EXPLORATION_STEPS))"

text \<open>
  The doubles between \<open>2\<^sup>-\<^sup>1\<^sup>4\<close> and 1 are whole numbers of units of \<open>2\<^sup>-\<^sup>6\<^sup>6\<close>, and on
  them the rounding is integer arithmetic that the kernel can run ten thousand times.
  \<open>rne_shift k m\<close> is the multiple of \<open>2\<^sup>k\<close> nearest to \<open>m\<close>, the even one of two
  equally near; \<open>fl_units d\<close> rounds \<open>d\<close> units, for \<open>d\<close> from \<open>2\<^sup>6\<^sup>2\<close> up to \<open>2\<^sup>6\<^sup>6\<close>, to 53
  significant bits (the four thresholds are \<open>2\<^sup>6\<^sup>5\<close>, \<open>2\<^sup>6\<^sup>4\<close> and \<open>2\<^sup>6\<^sup>3\<close>);
  \<open>step_units\<close> and \<open>final_units\<close> are \<open>epsilon_step\<close> and \<open>FINAL_EPSILON\<close> in units.
  That these are \<open>fl\<close>, the step and the final value is proved below, not assumed.
\<close>

definition rne_shift :: "nat \<Rightarrow> int \<Rightarrow> int" where
  "rne_shift k m =
     (let q = m div 2 ^ k; r = m mod 2 ^ k
      in (if 2 * r < 2 ^ k then q else if 2 * r > 2 ^ k then q + 1
          else if even q then q else q + 1) * 2 ^ k)"

definition fl_units :: "int \<Rightarrow> int" where
  "fl_units d =
     (if 36893488147419103232 \<le> d then rne_shift 13 d
      else if 18446744073709551616 \<le> d then rne_shift 12 d
      else if 9223372036854775808 \<le> d then rne_shift 11 d
      else rne_shift 10 d)"

definition step_units :: int where "step_units = 6640827866535439"
definition final_units :: int where "final_units = 7378697629483821056"

text \<open>
  \<open>anneal_run n e\<close> makes \<open>n\<close> decrements from \<open>e\<close> units and returns what they reach,
  provided that before each of them the guard of \<open>act\<close> holds (\<open>epsilon\<close> is above
  \<open>FINAL_EPSILON\<close>) and the value and the difference are in the range of \<open>fl_units\<close>.
\<close>

fun anneal_run :: "nat \<Rightarrow> int \<Rightarrow> int option" where
  "anneal_run 0 e = Some e"
| "anneal_run (Suc n) e =
     (if final_units < e \<and> e \<le> 73786976294838206464 \<and> 4611686018427387904 \<le> e - step_units
      then anneal_run n (fl_units (e - step_units))
      else None)"

section \<open>Detector (Detector.py)\<close>

definition min_score_thresh :: real where "min_score_thresh = 7 / 10"

text \<open>
  What \<open>run_inference_for_single_image\<close> returns: the boxes as rows
  (ymin, xmin, ymax, xmax), the classes cast to uint8, the scores. The instance masks
  only feed the drawing and are left out.
\<close>

type_synonym box = "real \<times> real \<times> real \<times> real"

record output_dict =
  num_detections :: int
  detection_boxes :: "box list"
  detection_classes :: "8 word list"
  detection_scores :: "real list"

text \<open>
  The arrays live in a store, so that a copy and its original are two cells: \<open>cells\<close>
  gives the array at an address, and the addresses below \<open>fresh\<close> are the allocated
  ones. \<open>files\<close> are the images written to disk, by name.
\<close>

record store =
  cells :: "nat \<Rightarrow> ndarray"
  fresh :: nat
  files :: "string \<rightharpoonup> ndarray"

text \<open>\<open>image_np.copy()\<close>: a new cell with the same contents.\<close>

definition copy :: "store \<Rightarrow> nat \<Rightarrow> nat \<times> store" where
  "copy s p = (fresh s, s\<lparr>cells := (cells s)(fresh s := cells s p), fresh := fresh s + 1\<rparr>)"

text \<open>
  The detector as constructed: the class names by class id (\<open>category_index\<close>), the
  frozen graph as the function from an image to its detections (\<open>inference\<close>; it reads
  the image and writes nothing), and the drawing of the object-detection library
  (\<open>visualize\<close>), which paints boxes and labels into the array it is given.
\<close>

record detector =
  category_index :: "nat \<rightharpoonup> string"
  inference :: "ndarray \<Rightarrow> output_dict"
  visualize :: "ndarray \<Rightarrow> output_dict \<Rightarrow> ndarray"

text \<open>The geometry of lines 173 to 185, for a box and the two numbers unpacked from the shape.\<close>

definition geometry :: "real \<Rightarrow> real \<Rightarrow> box \<Rightarrow> real \<times> real \<times> real \<times> real" where
  "geometry im_width im_height bx =
     (case bx of (ymin, xmin, ymax, xmax) \<Rightarrow>
        let left = xmin * im_width;
            right = xmax * im_width;
            top = ymin * im_height;
            bottom = ymax * im_height;
            POS_X = (left + right - im_width) / 2;
            POS_Y = (top + bottom - im_height) / 2;
            WIDTH = right - left;
            HEIGHT = bottom - top
        in (POS_X, POS_Y, WIDTH, HEIGHT))"

text \<open>
  The loop of \<open>detect\<close> over \<open>range(bboxes.shape[0])\<close>, from index \<open>i\<close> on. An index
  beyond the scores or the classes raises IndexError; falling off the end of the loop
  is Python's \<open>None\<close>.
\<close>

fun detect_loop ::
  "(nat \<rightharpoonup> string) \<Rightarrow> real \<Rightarrow> real \<Rightarrow> box list \<Rightarrow> 8 word list \<Rightarrow> real list option \<Rightarrow> nat list
     \<Rightarrow> error + (real \<times> real \<times> real \<times> real) option" where
  "detect_loop ci im_width im_height bboxes classes scores [] = Inr None"
| "detect_loop ci im_width im_height bboxes classes scores (i # is) =
     (case (case scores of
              None \<Rightarrow> Inr True
            | Some sc \<Rightarrow> (if i < length sc then Inr (sc ! i > min_score_thresh)
                          else Inl (IndexError ''index out of bounds''))) of
        Inl e \<Rightarrow> Inl e
      | Inr False \<Rightarrow> detect_loop ci im_width im_height bboxes classes scores is
      | Inr True \<Rightarrow>
          if i < length classes
          then (case ci (unat (classes ! i)) of
                  None \<Rightarrow> detect_loop ci im_width im_height bboxes classes scores is
                | Some class_name \<Rightarrow>
                    if class_name = ''traffic light''
                    then Inr (Some (geometry im_width im_height (bboxes ! i)))
                    else detect_loop ci im_width im_height bboxes classes scores is)
          else Inl (IndexError ''index out of bounds''))"

text \<open>
  \<open>Detector.detect\<close> on the image at address \<open>p\<close>. The drawing goes to the copy, which
  is then saved as \<open>detect.jpg\<close>; \<open>im_width, im_height = image_np.shape[0:2]\<close> takes
  the first two entries of the shape in this order, and raises ValueError when there
  are fewer than two.
\<close>

definition detect :: "detector \<Rightarrow> store \<Rightarrow> nat \<Rightarrow> (error + (real \<times> real \<times> real \<times> real) option) \<times> store" where
  "detect dt s p =
     (let (image, s1) = copy s p;
          od = inference dt (cells s1 p);
          s2 = s1\<lparr>cells := (cells s1)(image := visualize dt (cells s1 image) od)\<rparr>;
          s3 = s2\<lparr>files := (files s2)(''detect.jpg'' \<mapsto> cells s2 image)\<rparr>;
          bboxes = detection_boxes od;
          classes = detection_classes od;
          scores = detection_scores od
      in case take 2 (shape (cells s3 p)) of
           [im_width, im_height] \<Rightarrow>
             (detect_loop (category_index dt) (real im_width) (real im_height)
                bboxes classes (Some scores) [0..<length bboxes], s3)
         | _ \<Rightarrow> (Inl (ValueError ''need more than 1 value to unpack''), s3))"

text \<open>
  The image of a frame by its height and width, as numpy holds it: shape
  (height, width, 3), the layout \<open>load_image_into_numpy_array\<close> builds.
\<close>

definition blank_image :: "nat \<Rightarrow> nat \<Rightarrow> ndarray" where
  "blank_image im_height im_width = zeros [im_height, im_width, 3]"

section \<open>Concrete inputs\<close>

text \<open>A frame of two features, as the driver's simulator produces them.\<close>

definition frame2 :: "real \<Rightarrow> real \<Rightarrow> ndarray" where
  "frame2 x y = \<lparr>shape = [2], data = [x, y]\<rparr>"

text \<open>Five transitions, none terminal, and the memory of capacity 5 and history 2 that holds them.\<close>

definition five_transitions :: "transition list" where
  "five_transitions =
     [(frame2 1 1, 0, 0, False), (frame2 2 2, 1, 1, False), (frame2 3 3, 2, 0, False),
      (frame2 4 4, 3, 0, False), (frame2 5 5, 4, 0, False)]"

text \<open>
  Three more transitions than the capacity: the five above and three that overwrite the
  oldest, and the memory after all eight.
\<close>

definition eight_transitions :: "transition list" where
  "eight_transitions =
     five_transitions @
     [(frame2 6 6, 0, 0, False), (frame2 7 7, 1, 1, True), (frame2 8 8, 2, 0, False)]"

definition memory8 :: replay_memory where
  "memory8 =
     \<lparr>pos = 3, count = 5, max_size = 5, history_length = 2, state_shape = [2],
      states = [frame2 6 6, frame2 7 7, frame2 8 8, frame2 4 4, frame2 5 5],
      actions = [0, 1, 2, 3, 4],
      rewards = [0, 1, 0, 0, 0],
      terminals = [0, 1, 0, 0, 0]\<rparr>"

definition memory5 :: replay_memory where
  "memory5 =
     \<lparr>pos = 0, count = 5, max_size = 5, history_length = 2, state_shape = [2],
      states = [frame2 1 1, frame2 2 2, frame2 3 3, frame2 4 4, frame2 5 5],
      actions = [0, 1, 2, 3, 4],
      rewards = [0, 1, 0, 0, 0],
      terminals = [0, 0, 0, 0, 0]\<rparr>"

text \<open>
  A camera frame of the driver's resolution, 720 rows of 1280 pixels, alone in the store,
  and a detector whose graph reports one traffic light (class 10 of the COCO label map)
  with score 0.9 in the box (ymin, xmin, ymax, xmax) = (0.4, 0.4, 0.6, 0.6).
\<close>

definition camera_store :: store where
  "camera_store = \<lparr>cells = (\<lambda>_. blank_image 720 1280), fresh = 1, files = Map.empty\<rparr>"

definition one_light :: output_dict where
  "one_light = \<lparr>num_detections = 1, detection_boxes = [(4 / 10, 4 / 10, 6 / 10, 6 / 10)],
                 detection_classes = [10], detection_scores = [9 / 10]\<rparr>"

definition light_detector :: detector where
  "light_detector = \<lparr>category_index = [10 \<mapsto> ''traffic light'', 1 \<mapsto> ''person''],
                      inference = (\<lambda>_. one_light),
                      visualize = (\<lambda>img od. img\<lparr>data := map (\<lambda>_. 255) (data img)\<rparr>)\<rparr>"

text \<open>The same frame seen by a graph that reports a person, and a light below the threshold.\<close>

definition no_light :: output_dict where
  "no_light = \<lparr>num_detections = 2,
                detection_boxes = [(1 / 10, 1 / 10, 5 / 10, 5 / 10), (4 / 10, 4 / 10, 6 / 10, 6 / 10)],
                detection_classes = [1, 10], detection_scores = [9 / 10, 6 / 10]\<rparr>"

definition blind_detector :: detector where
  "blind_detector = light_detector\<lparr>inference := (\<lambda>_. no_light)\<rparr>"

text \<open>
  The driver's agent, four frames of two features and five actions, as constructed; the
  networks are stood in for by one that values every action at 0.
\<close>

definition new_agent :: "unit agent" where
  "new_agent =
     \<lparr>t = 0, epsilon = INITIAL_EPSILON,
      epsilon_step = fl (fl (INITIAL_EPSILON - FINAL_EPSILON) / real EXPLORATION_STEPS),
      total_reward = 0, total_q_max = 0, total_loss = 0, duration = 0, episode = 0,
      input_shape = [4, 2], nb_actions = 5,
      history = replicate 4 (zeros [2]),
      memory = ReplayMemory MEMORY_SIZE [2] (int STATE_LENGTH),
      num_actions_taken = 0, q_network = (), target_network = (), trace = []\<rparr>"

definition zero_backend :: "unit backend" where
  "zero_backend = \<lparr>q_eval = (\<lambda>_ _. [0, 0, 0, 0, 0]), minimize = (\<lambda>w _ _ _. w)\<rparr>"




text \<open>
  The agent as constructed, at the step where the replay memory counts as populated, and
  \<open>n\<close> calls of \<open>act\<close> on it with a zero state, \<open>random.random()\<close> returning 0 and
  \<open>random.randrange\<close> returning action 0.
\<close>

definition exploring_agent :: "unit agent" where
  "exploring_agent = new_agent\<lparr>t := INITIAL_REPLAY_SIZE\<rparr>"

fun act_times :: "'w backend \<Rightarrow> nat \<Rightarrow> 'w agent \<Rightarrow> error + 'w agent" where
  "act_times be 0 a = Inr a"
| "act_times be (Suc n) a =
     (case act be a (frame2 0 0) 0 0 of
        Inl e \<Rightarrow> Inl e
      | Inr (action, a') \<Rightarrow> act_times be n a')"

text \<open>An image of 100 rows and 100 columns, alone in the store.\<close>

definition square_store :: store where
  "square_store = \<lparr>cells = (\<lambda>_. blank_image 100 100), fresh = 1, files = Map.empty\<rparr>"

section \<open>Properties of the rounding\<close>

lemma fl_binade:
  assumes lo: "2 powi p \<le> x" and hi: "x < 2 powi (p + 1)"
  shows "fl x = of_int (rne (x / 2 powi (p - 52))) * 2 powi (p - 52)"
proof -
  have pos: "0 < x"
    using lo by (rule less_le_trans [rotated]) simp
  have a: "2 powr real_of_int p = (2::real) powi p"
    by (rule powr_real_of_int') simp_all
  have b: "2 powr real_of_int (p + 1) = (2::real) powi (p + 1)"
    by (rule powr_real_of_int') simp_all
  have "2 powr real_of_int p \<le> x \<and> x < 2 powr real_of_int (p + 1)"
    unfolding a b using lo hi by simp
  then have "\<lfloor>log 2 x\<rfloor> = p"
    using floor_log_eq_powr_iff [of x 2 p] pos by simp
  then have "ulp_exp x = p - 52"
    using pos by (simp add: ulp_exp_def)
  then show ?thesis
    using pos by (simp add: fl_def)
qed

lemma rne_of_int_div:
  "of_int (rne (of_int m / 2 ^ k)) * (2::real) ^ k = of_int (rne_shift k m)"
proof -
  define q where "q = m div 2 ^ k"
  define r where "r = m mod 2 ^ k"
  have m: "m = q * 2 ^ k + r"
    using div_mult_mod_eq [of m "2 ^ k"] by (simp add: q_def r_def)
  have fl: "\<lfloor>real_of_int m / 2 ^ k\<rfloor> = q"
    using floor_divide_of_int_eq [of m "2 ^ k", where ?'a = real] by (simp add: q_def)
  have frac: "real_of_int m / 2 ^ k - of_int q = of_int r / 2 ^ k"
    by (simp add: m field_simps)
  have lt: "of_int r / (2::real) ^ k < 1 / 2 \<longleftrightarrow> 2 * r < 2 ^ k"
  proof -
    have "of_int r / (2::real) ^ k < 1 / 2 \<longleftrightarrow> real_of_int (2 * r) < real_of_int (2 ^ k)"
      by (simp add: field_simps)
    also have "\<dots> \<longleftrightarrow> 2 * r < 2 ^ k" by (rule of_int_less_iff)
    finally show ?thesis .
  qed
  have gt: "of_int r / (2::real) ^ k > 1 / 2 \<longleftrightarrow> 2 * r > 2 ^ k"
  proof -
    have "of_int r / (2::real) ^ k > 1 / 2 \<longleftrightarrow> real_of_int (2 ^ k) < real_of_int (2 * r)"
      by (simp add: field_simps)
    also have "\<dots> \<longleftrightarrow> 2 ^ k < 2 * r" by (rule of_int_less_iff)
    finally show ?thesis .
  qed
  have "rne (of_int m / 2 ^ k) =
     (if 2 * r < 2 ^ k then q else if 2 * r > 2 ^ k then q + 1 else if even q then q else q + 1)"
    unfolding rne_def Let_def fl frac lt gt by simp
  then show ?thesis
    by (simp add: rne_shift_def Let_def q_def r_def)
qed

lemma fl_scaled:
  fixes d :: int and k s :: nat
  assumes lo: "2 ^ (52 + k) \<le> d" and hi: "d < 2 ^ (53 + k)"
  shows "fl (of_int d / 2 ^ s) = of_int (rne_shift k d) / 2 ^ s"
proof -
  let ?x = "real_of_int d / 2 ^ s"
  let ?p = "52 + int k - int s"
  have pd: "(2::real) powi (int a - int b) = 2 ^ a / 2 ^ b" for a b :: nat
  proof -
    have "(2::real) powi (int a - int b) = 2 powi int a / 2 powi int b"
      by (rule power_int_diff) simp
    then show ?thesis by (simp only: power_int_of_nat)
  qed
  have two: "(2::real) powi ?p = 2 ^ (52 + k) / 2 ^ s"
    using pd [of "52 + k" s] by simp
  have "?p + 1 = int (53 + k) - int s" by simp
  then have two': "(2::real) powi (?p + 1) = 2 ^ (53 + k) / 2 ^ s"
    using pd [of "53 + k" s] by (simp only:)
  have u: "(2::real) powi (?p - 52) = 2 ^ k / 2 ^ s"
    using pd [of k s] by simp
  have "real_of_int (2 ^ (52 + k)) \<le> real_of_int d" using lo by (simp only: of_int_le_iff)
  then have 1: "2 powi ?p \<le> ?x" unfolding two by (simp add: divide_right_mono)
  have "real_of_int d < real_of_int (2 ^ (53 + k))" using hi by (simp only: of_int_less_iff)
  then have 2: "?x < 2 powi (?p + 1)" unfolding two' by (simp add: divide_strict_right_mono)
  have q: "?x / (2 ^ k / 2 ^ s) = real_of_int d / 2 ^ k" by simp
  have "fl ?x = of_int (rne (real_of_int d / 2 ^ k)) * (2 ^ k / 2 ^ s)"
    using fl_binade [OF 1 2] unfolding u q .
  also have "\<dots> = (of_int (rne (real_of_int d / 2 ^ k)) * 2 ^ k) / 2 ^ s" by simp
  also have "\<dots> = of_int (rne_shift k d) / 2 ^ s" by (simp only: rne_of_int_div)
  finally show ?thesis .
qed

text \<open>Float32: whole numbers below \<open>2\<^sup>2\<^sup>4\<close> are exact, and the rounding within a binade.\<close>

lemma rne_of_int: "rne (of_int k) = k"
  by (simp add: rne_def)

lemma round_trip_nonpos_exp:
  assumes "e \<le> 0"
  shows "of_int (rne (of_int n / 2 powi e)) * (2::real) powi e = of_int n"
proof -
  have "(2::real) powi (- e) = 2 ^ nat (- e)"
    using assms by (simp add: power_int_def)
  then have e: "(2::real) powi e = 1 / 2 ^ nat (- e)"
    using power_int_minus [of "2::real" "- e"] by (simp add: field_simps)
  have "real_of_int n / 2 powi e = of_int (n * 2 ^ nat (- e))"
    by (simp add: e)
  then have "rne (real_of_int n / 2 powi e) = n * 2 ^ nat (- e)"
    by (simp only: rne_of_int)
  then show ?thesis by (simp add: e)
qed

lemma fl32_of_int:
  assumes "\<bar>n\<bar> < 2 ^ 24"
  shows "fl32 (of_int n) = of_int n"
proof (cases "n = 0")
  case True
  then show ?thesis by (simp add: fl32_def)
next
  case False
  then have pos: "0 < \<bar>real_of_int n\<bar>" by simp
  have "\<bar>real_of_int n\<bar> < 2 ^ 24"
    using assms by (metis of_int_abs of_int_less_iff of_int_numeral of_int_power)
  then have "\<bar>real_of_int n\<bar> < 2 powr 24"
    by simp
  then have "log 2 \<bar>real_of_int n\<bar> < 24"
    using pos by (simp add: log_less_iff)
  then have "\<lfloor>log 2 \<bar>real_of_int n\<bar>\<rfloor> \<le> 23"
    by (simp add: floor_le_iff)
  then have "ulp_exp32 (of_int n) \<le> 0" by (simp add: ulp_exp32_def)
  from round_trip_nonpos_exp [OF this, of n] False show ?thesis by (simp add: fl32_def)
qed

lemma fl32_numeral:
  "(numeral k :: int) < 16777216 \<Longrightarrow> fl32 (numeral k) = numeral k"
  using fl32_of_int [of "numeral k"] by simp

lemma fl32_0: "fl32 0 = 0"
  by (simp add: fl32_def)

lemma fl32_1: "fl32 1 = 1"
  using fl32_of_int [of 1] by simp


lemma fl_units_correct:
  assumes lo: "4611686018427387904 \<le> d" and hi: "d < 73786976294838206464"
  shows "fl (of_int d / 2 ^ 66) = of_int (fl_units d) / 2 ^ 66"
proof -
  have p: "(2::int) ^ 62 = 4611686018427387904" "(2::int) ^ 63 = 9223372036854775808"
    "(2::int) ^ 64 = 18446744073709551616" "(2::int) ^ 65 = 36893488147419103232"
    "(2::int) ^ 66 = 73786976294838206464"
    by simp_all
  consider (a) "36893488147419103232 \<le> d"
    | (b) "18446744073709551616 \<le> d" "d < 36893488147419103232"
    | (c) "9223372036854775808 \<le> d" "d < 18446744073709551616"
    | (d) "d < 9223372036854775808"
    by linarith
  then show ?thesis
  proof cases
    case a
    have "fl (of_int d / 2 ^ 66) = of_int (rne_shift 13 d) / 2 ^ 66"
      by (rule fl_scaled) (use a hi p in simp_all)
    with a show ?thesis by (simp add: fl_units_def)
  next
    case b
    have "fl (of_int d / 2 ^ 66) = of_int (rne_shift 12 d) / 2 ^ 66"
      by (rule fl_scaled) (use b p in simp_all)
    with b show ?thesis by (simp add: fl_units_def)
  next
    case c
    have "fl (of_int d / 2 ^ 66) = of_int (rne_shift 11 d) / 2 ^ 66"
      by (rule fl_scaled) (use c p in simp_all)
    with c show ?thesis by (simp add: fl_units_def)
  next
    case d
    have "fl (of_int d / 2 ^ 66) = of_int (rne_shift 10 d) / 2 ^ 66"
      by (rule fl_scaled) (use d lo p in simp_all)
    with d show ?thesis by (simp add: fl_units_def)
  qed
qed

lemma rne_numeral_divide:
  "rne (numeral a / numeral b) =
     (let f = numeral a div numeral b :: int
      in if (numeral a / numeral b :: real) - of_int f < 1 / 2 then f
         else if (numeral a / numeral b :: real) - of_int f > 1 / 2 then f + 1
         else if even f then f else f + 1)"
  by (simp only: rne_def floor_divide_eq_div_numeral)

lemma FINAL_EPSILON_units: "FINAL_EPSILON = of_int final_units / 2 ^ 66"
proof -
  have 1: "2 powi (- 4) \<le> (1 / 10 :: real)" by simp
  have 2: "(1 / 10 :: real) < 2 powi (- 4 + 1)" by simp
  have q: "(1 / 10 :: real) / 2 powi (- 4 - 52) = 72057594037927936 / 10" by simp
  have r: "rne (72057594037927936 / 10) = 7205759403792794"
    by (simp add: rne_numeral_divide Let_def)
  have "fl (1 / 10) = of_int (rne ((1 / 10) / 2 powi (- 4 - 52))) * 2 powi (- 4 - 52)"
    by (rule fl_binade [OF 1 2])
  also have "\<dots> = 7205759403792794 * 2 powi (- 56)" unfolding q r by simp
  also have "\<dots> = of_int final_units / 2 ^ 66" by (simp add: final_units_def)
  finally show ?thesis by (simp add: FINAL_EPSILON_def)
qed


lemma epsilon_step_units:
  "fl (fl (INITIAL_EPSILON - FINAL_EPSILON) / real EXPLORATION_STEPS) = of_int step_units / 2 ^ 66"
proof -
  have "INITIAL_EPSILON - FINAL_EPSILON = of_int 66408278665354385408 / 2 ^ 66"
    by (simp add: INITIAL_EPSILON_def FINAL_EPSILON_units final_units_def field_simps)
  also have "fl \<dots> = of_int (fl_units 66408278665354385408) / 2 ^ 66"
    by (rule fl_units_correct) simp_all
  also have "fl_units 66408278665354385408 = 66408278665354387456"
    by (simp add: fl_units_def rne_shift_def Let_def)
  finally have d: "fl (INITIAL_EPSILON - FINAL_EPSILON) = 66408278665354387456 / 2 ^ 66"
    by simp
  let ?x = "(66408278665354387456 / 2 ^ 66) / 10000 :: real"
  have 1: "2 powi (- 14) \<le> ?x" by simp
  have 2: "?x < 2 powi (- 14 + 1)" by simp
  have q: "?x / 2 powi (- 14 - 52) = 66408278665354387456 / 10000" by simp
  have r: "rne (66408278665354387456 / 10000) = 6640827866535439"
    by (simp add: rne_numeral_divide Let_def)
  have "fl ?x = of_int (rne (?x / 2 powi (- 14 - 52))) * 2 powi (- 14 - 52)"
    by (rule fl_binade [OF 1 2])
  also have "\<dots> = 6640827866535439 * 2 powi (- 66)" unfolding q r by simp
  also have "\<dots> = of_int step_units / 2 ^ 66" by (simp add: step_units_def)
  finally show ?thesis by (simp add: d EXPLORATION_STEPS_def)
qed

lemma anneal_run_sound:
  assumes "anneal_run n e = Some r" and "epsilon_after i = of_int e / 2 ^ 66"
  shows "(\<forall>j < n. FINAL_EPSILON < epsilon_after (i + j) \<and> epsilon_after (i + j) \<le> 1) \<and>
         epsilon_after (i + n) = of_int r / 2 ^ 66"
  using assms
proof (induction n arbitrary: e i)
  case 0
  then show ?case by simp
next
  case (Suc n)
  from Suc.prems(1) have g: "final_units < e" and u: "e \<le> 73786976294838206464"
    and l: "4611686018427387904 \<le> e - step_units"
    and rest: "anneal_run n (fl_units (e - step_units)) = Some r"
    by (simp_all split: if_splits)
  have "epsilon_after (Suc i) = fl (epsilon_after i - of_int step_units / 2 ^ 66)"
    by (simp only: epsilon_after.simps epsilon_step_units)
  also have "\<dots> = fl (of_int e / 2 ^ 66 - of_int step_units / 2 ^ 66)"
    by (simp only: Suc.prems(2))
  also have "of_int e / 2 ^ 66 - of_int step_units / 2 ^ 66 = (of_int (e - step_units) / 2 ^ 66 :: real)"
    by (simp add: diff_divide_distrib)
  also have "fl \<dots> = of_int (fl_units (e - step_units)) / 2 ^ 66"
    by (rule fl_units_correct) (use l u in \<open>simp_all add: step_units_def\<close>)
  finally have nxt: "epsilon_after (Suc i) = of_int (fl_units (e - step_units)) / 2 ^ 66" .
  from Suc.IH [OF rest nxt]
  have ih: "\<forall>j < n. FINAL_EPSILON < epsilon_after (Suc i + j) \<and> epsilon_after (Suc i + j) \<le> 1"
    and fin: "epsilon_after (Suc i + n) = of_int r / 2 ^ 66"
    by simp_all
  have "real_of_int final_units < real_of_int e" using g by (simp only: of_int_less_iff)
  then have g': "FINAL_EPSILON < epsilon_after i"
    unfolding Suc.prems(2) FINAL_EPSILON_units by (simp add: divide_strict_right_mono)
  have "real_of_int e \<le> real_of_int 73786976294838206464" using u by (simp only: of_int_le_iff)
  then have u': "epsilon_after i \<le> 1"
    unfolding Suc.prems(2) by simp
  have "\<forall>j < Suc n. FINAL_EPSILON < epsilon_after (i + j) \<and> epsilon_after (i + j) \<le> 1"
  proof (intro allI impI)
    fix j assume "j < Suc n"
    show "FINAL_EPSILON < epsilon_after (i + j) \<and> epsilon_after (i + j) \<le> 1"
    proof (cases j)
      case 0
      with g' u' show ?thesis by simp
    next
      case (Suc j')
      with \<open>j < Suc n\<close> ih show ?thesis by simp
    qed
  qed
  with fin show ?case by simp
qed

text \<open>The ten thousand decrements, a thousand at a time.\<close>

lemma anneal_run_chunk_0: "anneal_run 1000 73786976294838206464 = Some 67146148428300222464"
  by code_simp

lemma anneal_run_chunk_1: "anneal_run 1000 67146148428300222464 = Some 60505320561762238464"
  by code_simp

lemma anneal_run_chunk_2: "anneal_run 1000 60505320561762238464 = Some 53864492695224254464"
  by code_simp

lemma anneal_run_chunk_3: "anneal_run 1000 53864492695224254464 = Some 47223664828686270464"
  by code_simp

lemma anneal_run_chunk_4: "anneal_run 1000 47223664828686270464 = Some 40582836962148286464"
  by code_simp

lemma anneal_run_chunk_5: "anneal_run 1000 40582836962148286464 = Some 33942009095612125184"
  by code_simp

lemma anneal_run_chunk_6: "anneal_run 1000 33942009095612125184 = Some 27301181229078237184"
  by code_simp

lemma anneal_run_chunk_7: "anneal_run 1000 27301181229078237184 = Some 20660353362544349184"
  by code_simp

lemma anneal_run_chunk_8: "anneal_run 1000 20660353362544349184 = Some 14019525496009095168"
  by code_simp

lemma anneal_run_chunk_9: "anneal_run 1000 14019525496009095168 = Some 7378697629473159168"
  by code_simp

lemma anneal_run_add:
  "anneal_run (a + b) e = (case anneal_run a e of None \<Rightarrow> None | Some e' \<Rightarrow> anneal_run b e')"
  by (induction a arbitrary: e) simp_all

lemma anneal_run_10000:
  "anneal_run 10000 73786976294838206464 = Some 7378697629473159168"
proof -
  have "(10000::nat) = 1000 + (1000 + (1000 + (1000 + (1000 + (1000 + (1000 + (1000 + (1000 + 1000))))))))"
    by simp
  then show ?thesis
    by (simp only: anneal_run_add anneal_run_chunk_0 anneal_run_chunk_1 anneal_run_chunk_2
        anneal_run_chunk_3 anneal_run_chunk_4 anneal_run_chunk_5 anneal_run_chunk_6
        anneal_run_chunk_7 anneal_run_chunk_8 anneal_run_chunk_9 option.case)
qed









section \<open>Properties of ReplayMemory\<close>

lemma wf_memory_init: "wf_memory (ReplayMemory n sh hl)"
  by (cases "n = 0") (simp_all add: wf_memory_def ReplayMemory_def)

lemma append_wf:
  assumes "wf_memory m" and "memory_append m s a r d = Inr m'"
  shows "wf_memory m'"
  using assms
  by (auto simp: wf_memory_def memory_append_def split: if_splits)

lemma appends_wf:
  "wf_memory m \<Longrightarrow> appends m ts = Inr m' \<Longrightarrow> wf_memory m'"
proof (induction ts arbitrary: m)
  case Nil
  then show ?case by simp
next
  case (Cons t ts)
  obtain s a r d where t: "t = (s, a, r, d)" by (cases t) auto
  from Cons.prems(2) t obtain m1 where m1: "memory_append m s a r d = Inr m1" and rest: "appends m1 ts = Inr m'"
    by (auto split: sum.splits)
  from append_wf [OF Cons.prems(1) m1] rest Cons.IH show ?case by blast
qed


lemma append_step:
  assumes ok: "memory_append m s a r d = Inr m'"
    and c: "count m = min k (max_size m)" and p: "pos m = k mod max_size m"
  shows "max_size m' = max_size m \<and> count m' = min (Suc k) (max_size m) \<and> pos m' = Suc k mod max_size m"
proof -
  from ok have N: "max_size m \<noteq> 0"
    and m': "m' = m\<lparr>states := (states m)[pos m := astype_float32 s],
                   actions := (actions m)[pos m := word_of_int a],
                   rewards := (rewards m)[pos m := fl32 r],
                   terminals := (terminals m)[pos m := (if d then 1 else 0)],
                   count := max (count m) (pos m + 1),
                   pos := (pos m + 1) mod max_size m\<rparr>"
    by (auto simp: memory_append_def split: if_splits)
  have 1: "max_size m' = max_size m" using m' by simp
  have 2: "pos m' = Suc k mod max_size m" using m' p by (simp add: mod_Suc_eq)
  have 3: "count m' = min (Suc k) (max_size m)"
  proof (cases "k < max_size m")
    case True
    then show ?thesis using m' c p by simp
  next
    case False
    have "k mod max_size m < max_size m" using N by simp
    then show ?thesis using False m' c p by simp
  qed
  from 1 2 3 show ?thesis by simp
qed

lemma appends_from:
  "appends m ts = Inr m' \<Longrightarrow> count m = min k (max_size m) \<Longrightarrow> pos m = k mod max_size m \<Longrightarrow>
   max_size m' = max_size m \<and> count m' = min (k + length ts) (max_size m) \<and>
   pos m' = (k + length ts) mod max_size m"
proof (induction ts arbitrary: m k)
  case Nil
  then show ?case by simp
next
  case (Cons t ts)
  obtain s a r d where t: "t = (s, a, r, d)" by (cases t) auto
  from Cons.prems(1) t obtain m1 where m1: "memory_append m s a r d = Inr m1"
    and rest: "appends m1 ts = Inr m'"
    by (auto split: sum.splits)
  from append_step [OF m1 Cons.prems(2) Cons.prems(3)]
  have s1: "max_size m1 = max_size m" "count m1 = min (Suc k) (max_size m1)"
    "pos m1 = Suc k mod max_size m1" by simp_all
  from Cons.IH [OF rest s1(2) s1(3)] s1(1) show ?case by simp
qed

lemma append_count_mono: "memory_append m s a r d = Inr m' \<Longrightarrow> count m \<le> count m'"
  by (auto simp: memory_append_def split: if_splits)



lemma arange_map: "arange a (a + int n) = map (\<lambda>k. a + int k) [0..<n]"
proof (rule nth_equalityI)
  show "length (arange a (a + int n)) = length (map (\<lambda>k. a + int k) [0..<n])"
    by (simp add: arange_def)
next
  fix i assume "i < length (arange a (a + int n))"
  then have "i < n" by (simp add: arange_def)
  then show "arange a (a + int n) ! i = map (\<lambda>k. a + int k) [0..<n] ! i"
    by (simp add: arange_def)
qed

lemma slice_nth:
  assumes "lo \<le> hi" and "hi \<le> length xs"
  shows "py_slice xs (int lo) (int hi) = map (\<lambda>k. xs ! (lo + k)) [0..<hi - lo]"
proof (rule nth_equalityI)
  show "length (py_slice xs (int lo) (int hi)) = length (map (\<lambda>k. xs ! (lo + k)) [0..<hi - lo])"
    using assms by (simp add: py_slice_def slice_bound_def)
next
  fix i assume "i < length (py_slice xs (int lo) (int hi))"
  then have "i < hi - lo" using assms by (simp add: py_slice_def slice_bound_def)
  then show "py_slice xs (int lo) (int hi) ! i = map (\<lambda>k. xs ! (lo + k)) [0..<hi - lo] ! i"
    using assms by (simp add: py_slice_def slice_bound_def)
qed

lemma get_state_slice:
  assumes wf: "wf_memory m" and c: "0 < count m"
    and j: "j = nat (i mod int (count m))" and hl: "history_length m \<le> j"
  shows "get_state m i = Inr (map (\<lambda>k. states m ! (j + 1 - history_length m + k)) [0..<history_length m])"
proof -
  have jc: "j < count m" using j c by (simp add: nat_less_iff)
  have ij: "i mod int (count m) = int j" using j c by simp
  have len: "j + 1 \<le> length (states m)" using jc wf by (simp add: wf_memory_def)
  have h1: "1 \<le> history_length m" using wf by (simp add: wf_memory_def)
  have b1: "i mod int (count m) - (int (history_length m) - 1) = int (j + 1 - history_length m)"
    using hl ij by simp
  have b2: "i mod int (count m) + 1 = int (j + 1)" using ij by simp
  have "get_state m i = Inr (py_slice (states m) (int (j + 1 - history_length m)) (int (j + 1)))"
    unfolding get_state_def Let_def b1 b2 using c hl ij by simp
  also have "py_slice (states m) (int (j + 1 - history_length m)) (int (j + 1)) =
     map (\<lambda>k. states m ! (j + 1 - history_length m + k)) [0..<j + 1 - (j + 1 - history_length m)]"
    by (rule slice_nth) (use len in simp_all)
  also have "j + 1 - (j + 1 - history_length m) = history_length m" using hl by simp
  finally show ?thesis .
qed

lemma get_state_wrap:
  assumes wf: "wf_memory m" and c: "0 < count m"
    and j: "j = nat (i mod int (count m))" and hl: "j < history_length m"
  shows "get_state m i =
    Inr (map (\<lambda>k. states m ! nat ((int j - int (history_length m) + 1 + int k) mod int (max_size m)))
           [0..<history_length m])"
proof -
  have ij: "i mod int (count m) = int j" using j c by simp
  have ne: "states m \<noteq> []" using wf c by (auto simp: wf_memory_def)
  have len: "length (states m) = max_size m" using wf by (simp add: wf_memory_def)
  have "int j + 1 = (int j - int (history_length m) + 1) + int (history_length m)" by simp
  then have ar: "arange (int j - int (history_length m) + 1) (int j + 1) =
     map (\<lambda>k. (int j - int (history_length m) + 1) + int k) [0..<history_length m]"
    using arange_map [of "int j - int (history_length m) + 1" "history_length m"] by simp
  have "get_state m i = take_wrap (states m) (arange (int j - int (history_length m) + 1) (int j + 1))"
    using c hl ij by (simp add: get_state_def Let_def)
  then show ?thesis
    unfolding ar using ne len by (simp add: take_wrap_def o_def)
qed

lemma replicate_5: "replicate 5 x = [x, x, x, x, x]"
  by (simp add: numeral_eq_Suc)

lemma memory5_appends: "appends (ReplayMemory 5 [2] 2) five_transitions = Inr memory5"
  by (simp add: five_transitions_def memory5_def ReplayMemory_def memory_append_def frame2_def
      zeros_def replicate_5 astype_float32_def fl32_numeral fl32_0 fl32_1)

lemma memory5_wf: "wf_memory memory5"
  by (simp add: wf_memory_def memory5_def)

lemma get_state_returns:
  assumes "wf_memory m" and "0 < count m"
  shows "\<exists>fs. get_state m i = Inr fs \<and> length fs = history_length m"
proof (cases "history_length m \<le> nat (i mod int (count m))")
  case True
  from get_state_slice [OF assms refl True] show ?thesis by simp
next
  case False
  then have "nat (i mod int (count m)) < history_length m" by simp
  from get_state_wrap [OF assms refl this] show ?thesis by simp
qed

lemma memory8_appends: "appends (ReplayMemory 5 [2] 2) eight_transitions = Inr memory8"
  by (simp add: eight_transitions_def five_transitions_def memory8_def ReplayMemory_def
      memory_append_def frame2_def zeros_def replicate_5 astype_float32_def fl32_numeral
      fl32_0 fl32_1)

text \<open>
  \<open>append\<close> returns on every memory of positive capacity that the constructor and
  \<open>append\<close> have made, for a state of the memory's shape; so does any run of appends.
\<close>

lemma memory_append_total:
  assumes "wf_memory m" and "0 < max_size m" and "shape s = state_shape m"
  shows "\<exists>m'. memory_append m s a r d = Inr m'"
  using assms by (simp add: memory_append_def wf_memory_def)

lemma memory_append_frame:
  "memory_append m s a r d = Inr m' \<Longrightarrow>
     state_shape m' = state_shape m \<and> max_size m' = max_size m"
  by (auto simp: memory_append_def split: if_splits)

lemma appends_total:
  assumes "wf_memory m" and "0 < max_size m" and "\<forall>tr \<in> set ts. shape (fst tr) = state_shape m"
  shows "\<exists>m'. appends m ts = Inr m'"
  using assms
proof (induction ts arbitrary: m)
  case Nil
  then show ?case by simp
next
  case (Cons tr ts)
  obtain s a r d where tr: "tr = (s, a, r, d)" by (cases tr) auto
  with Cons.prems(3) have sh: "shape s = state_shape m" by simp
  from memory_append_total [OF Cons.prems(1) Cons.prems(2) sh]
  obtain m1 where m1: "memory_append m s a r d = Inr m1" by blast
  from append_wf [OF Cons.prems(1) m1] have wf1: "wf_memory m1" .
  from memory_append_frame [OF m1] Cons.prems(2) Cons.prems(3)
  have "0 < max_size m1" "\<forall>tr \<in> set ts. shape (fst tr) = state_shape m1" by simp_all
  from Cons.IH [OF wf1 this] obtain m' where "appends m1 ts = Inr m'" by blast
  with m1 tr show ?case by simp
qed

lemma appends_frame:
  "appends m ts = Inr m' \<Longrightarrow> state_shape m' = state_shape m \<and> max_size m' = max_size m"
proof (induction ts arbitrary: m)
  case Nil
  then show ?case by simp
next
  case (Cons tr ts)
  obtain s a r d where tr: "tr = (s, a, r, d)" by (cases tr) auto
  from Cons.prems tr obtain m1 where m1: "memory_append m s a r d = Inr m1"
    and rest: "appends m1 ts = Inr m'"
    by (auto split: sum.splits)
  from Cons.IH [OF rest] memory_append_frame [OF m1] show ?case by simp
qed

text \<open>
  C4. From a fresh memory of capacity \<open>n\<close>, \<open>k\<close> appends of states of the memory's shape
  all succeed when \<open>n\<close> is positive, however many they are; and after \<open>k\<close> appends that
  succeeded the count is \<open>min k n\<close> and the write cursor is \<open>k mod n\<close>, after \<open>n + 3\<close> of
  them the count is \<open>n\<close> and the cursor \<open>3 mod n\<close>, the count never exceeds the capacity,
  and a further append never lowers it.
\<close>

theorem C4_append_count_pos:
  "(0 < n \<and> (\<forall>tr \<in> set ts. shape (fst tr) = sh) \<longrightarrow>
      (\<exists>m. appends (ReplayMemory n sh hl) ts = Inr m)) \<and>
   (\<forall>m. appends (ReplayMemory n sh hl) ts = Inr m \<longrightarrow>
      count m = min (length ts) n \<and> pos m = length ts mod n \<and>
      (length ts = n + 3 \<longrightarrow> count m = n \<and> pos m = 3 mod n) \<and>
      max_size m = n \<and> count m \<le> max_size m \<and>
      (\<forall>s a r d m'. memory_append m s a r d = Inr m' \<longrightarrow> count m \<le> count m') \<and>
      (0 < n \<longrightarrow> (\<forall>s a r d. shape s = sh \<longrightarrow> (\<exists>m'. memory_append m s a r d = Inr m'))))"
proof (intro conjI allI impI)
  assume "0 < n \<and> (\<forall>tr \<in> set ts. shape (fst tr) = sh)"
  then have "0 < max_size (ReplayMemory n sh hl)"
    and "\<forall>tr \<in> set ts. shape (fst tr) = state_shape (ReplayMemory n sh hl)"
    by (simp_all add: ReplayMemory_def)
  from appends_total [OF wf_memory_init this]
  show "\<exists>m. appends (ReplayMemory n sh hl) ts = Inr m" .
next
  fix m assume ok: "appends (ReplayMemory n sh hl) ts = Inr m"
  have "count (ReplayMemory n sh hl) = min 0 (max_size (ReplayMemory n sh hl))"
    and "pos (ReplayMemory n sh hl) = 0 mod max_size (ReplayMemory n sh hl)"
    by (simp_all add: ReplayMemory_def)
  from appends_from [OF ok this]
  have *: "max_size m = n" "count m = min (length ts) n" "pos m = length ts mod n"
    by (simp_all add: ReplayMemory_def)
  show "count m = min (length ts) n" by (rule *(2))
  show "pos m = length ts mod n" by (rule *(3))
  show "max_size m = n" by (rule *(1))
  show "count m \<le> max_size m" using * by simp
  {
    assume "length ts = n + 3"
    then show "count m = n" using * by simp
  }
  {
    assume "length ts = n + 3"
    then show "pos m = 3 mod n" using * by simp
  }
  {
    fix s a r d m' assume "memory_append m s a r d = Inr m'"
    then show "count m \<le> count m'" by (rule append_count_mono)
  }
  {
    fix s :: ndarray and a r d assume n: "0 < n" and sh: "shape s = sh"
    have wf: "wf_memory m" by (rule appends_wf [OF wf_memory_init ok])
    have "state_shape m = sh"
      using appends_frame [OF ok] by (simp add: ReplayMemory_def)
    with sh have s: "shape s = state_shape m" by simp
    from n * have p: "0 < max_size m" by simp
    show "\<exists>m'. memory_append m s a r d = Inr m'"
      by (rule memory_append_total [OF wf p s])
  }
qed

theorem C4_append_count_pos_witness:
  "appends (ReplayMemory 5 [2] 2) eight_transitions = Inr memory8 \<and>
   length eight_transitions = 5 + 3 \<and> count memory8 = 5 \<and> pos memory8 = 3 \<and>
   max_size memory8 = 5"
proof -
  note th = C4_append_count_pos [of 5 eight_transitions "[2]" 2]
  have len: "length eight_transitions = 5 + 3"
    by (simp add: eight_transitions_def five_transitions_def)
  from th memory8_appends have
    "length eight_transitions = 5 + 3 \<longrightarrow> count memory8 = 5 \<and> pos memory8 = 3 mod 5"
    and "max_size memory8 = 5"
    by blast+
  with len memory8_appends show ?thesis by simp
qed

text \<open>
  C5. In a memory as the constructor and \<open>append\<close> make them, with at least one
  transition, \<open>get_state\<close> reduces the index modulo the count; at or above the history
  length it returns the stored states at the \<open>history_length\<close> consecutive positions that
  end at the reduced index, below it the states at the positions from
  \<open>index - history_length + 1\<close> to \<open>index\<close> taken modulo the length of the array; in
  both cases it returns exactly \<open>history_length\<close> frames.
\<close>

theorem C5_get_state_frames:
  assumes "wf_memory m" and "0 < count m"
  shows "(history_length m \<le> nat (i mod int (count m)) \<longrightarrow>
            get_state m i =
              Inr (map (\<lambda>k. states m ! (nat (i mod int (count m)) + 1 - history_length m + k))
                     [0..<history_length m])) \<and>
         (nat (i mod int (count m)) < history_length m \<longrightarrow>
            get_state m i =
              Inr (map (\<lambda>k. states m ! nat ((i mod int (count m) - int (history_length m) + 1 + int k)
                                              mod int (max_size m)))
                     [0..<history_length m])) \<and>
         (\<exists>fs. get_state m i = Inr fs \<and> length fs = history_length m)"
proof -
  define j where "j = nat (i mod int (count m))"
  have ij: "i mod int (count m) = int j" using j_def assms(2) by simp
  have a: "history_length m \<le> j \<longrightarrow> get_state m i =
      Inr (map (\<lambda>k. states m ! (j + 1 - history_length m + k)) [0..<history_length m])"
    using get_state_slice [OF assms j_def] by blast
  have b: "j < history_length m \<longrightarrow> get_state m i =
      Inr (map (\<lambda>k. states m ! nat ((int j - int (history_length m) + 1 + int k) mod int (max_size m)))
           [0..<history_length m])"
    using get_state_wrap [OF assms j_def] by blast
  have c: "\<exists>fs. get_state m i = Inr fs \<and> length fs = history_length m"
  proof (cases "history_length m \<le> j")
    case True
    with a show ?thesis by simp
  next
    case False
    with b show ?thesis by simp
  qed
  from a b c show ?thesis unfolding ij by simp
qed

theorem C5_get_state_frames_witness:
  "wf_memory memory5 \<and> 0 < count memory5 \<and>
   get_state memory5 3 = Inr [frame2 3 3, frame2 4 4] \<and>
   get_state memory5 5 = Inr [frame2 5 5, frame2 1 1]"
proof -
  have c: "0 < count memory5" by (simp add: memory5_def)
  have u: "[0..<2] = [0, Suc 0]" by (simp add: numeral_eq_Suc)
  have "get_state memory5 3 = Inr [frame2 3 3, frame2 4 4]"
    using C5_get_state_frames [OF memory5_wf c, of 3] by (simp add: memory5_def u)
  moreover have "get_state memory5 5 = Inr [frame2 5 5, frame2 1 1]"
    using C5_get_state_frames [OF memory5_wf c, of 5] by (simp add: memory5_def u)
  ultimately show ?thesis using memory5_wf c by simp
qed

text \<open>
  C6. In such a memory \<open>get_state\<close> fails exactly when the count is 0, then with
  IndexError 'Empty Memory'; with a positive count it returns a state.
\<close>

theorem C6_get_state_empty:
  assumes "wf_memory m"
  shows "(get_state m i = Inl (IndexError ''Empty Memory'') \<longleftrightarrow> count m = 0) \<and>
         ((\<exists>e. get_state m i = Inl e) \<longleftrightarrow> count m = 0) \<and>
         (0 < count m \<longrightarrow> (\<exists>fs. get_state m i = Inr fs))"
proof (cases "count m = 0")
  case True
  then show ?thesis by (simp add: get_state_def)
next
  case False
  then have "0 < count m" by simp
  from get_state_returns [OF assms this, of i]
  obtain fs where "get_state m i = Inr fs" by blast
  with False show ?thesis by simp
qed

theorem C6_get_state_empty_witness:
  "wf_memory (ReplayMemory 5 [2] 2) \<and> count (ReplayMemory 5 [2] 2) = 0 \<and>
   get_state (ReplayMemory 5 [2] 2) 3 = Inl (IndexError ''Empty Memory'') \<and>
   wf_memory memory5 \<and> 0 < count memory5 \<and> (\<exists>fs. get_state memory5 3 = Inr fs)"
proof -
  have c0: "count (ReplayMemory 5 [2] 2) = 0" by (simp add: ReplayMemory_def)
  have c5: "0 < count memory5" by (simp add: memory5_def)
  from C6_get_state_empty [OF wf_memory_init, of 5 "[2]" 2 3] c0
  have a: "get_state (ReplayMemory 5 [2] 2) 3 = Inl (IndexError ''Empty Memory'')" by simp
  from C6_get_state_empty [OF memory5_wf, of 3] c5
  have b: "\<exists>fs. get_state memory5 3 = Inr fs" by simp
  from a b c0 c5 wf_memory_init memory5_wf show ?thesis by simp
qed

section \<open>Properties of Detector\<close>

lemma detect_loop_none:
  assumes "\<forall>i \<in> set js. i < length sc \<and> i < length cs \<and>
             \<not> (sc ! i > min_score_thresh \<and> ci (unat (cs ! i)) = Some ''traffic light'')"
  shows "detect_loop ci w h bs cs (Some sc) js = Inr None"
  using assms
proof (induction js)
  case Nil
  then show ?case by simp
next
  case (Cons i js)
  then have i: "i < length sc" "i < length cs"
    and no: "\<not> (sc ! i > min_score_thresh \<and> ci (unat (cs ! i)) = Some ''traffic light'')"
    and rest: "detect_loop ci w h bs cs (Some sc) js = Inr None"
    by simp_all
  show ?case
  proof (cases "sc ! i > min_score_thresh")
    case True
    with no have "ci (unat (cs ! i)) \<noteq> Some ''traffic light''" by simp
    with True i rest show ?thesis by (simp split: option.splits)
  next
    case False
    with i rest show ?thesis by simp
  qed
qed

lemma detect_unfold:
  assumes "p < fresh s" and "take 2 (shape (cells s p)) = [w, h]"
  shows "fst (detect dt s p) =
     detect_loop (category_index dt) (real w) (real h) (detection_boxes (inference dt (cells s p)))
       (detection_classes (inference dt (cells s p)))
       (Some (detection_scores (inference dt (cells s p))))
       [0..<length (detection_boxes (inference dt (cells s p)))]"
  using assms by (simp add: detect_def copy_def Let_def)

lemma shape_zeros: "shape (zeros sh) = sh"
  by (simp add: zeros_def)

lemma take_2: "take 2 (a # b # xs) = [a, b]"
  by (simp add: numeral_eq_Suc)

lemma camera_shape: "take 2 (shape (cells camera_store 0)) = [720, 1280]"
  by (simp add: camera_store_def blank_image_def shape_zeros take_2)

text \<open>
  On a square image the two numbers unpacked from the shape are equal, and the returned
  tuple is the one the formulas of the specification give: the light of \<open>one_light\<close> in
  an image of 100 by 100 is at the centre, 20 wide and 20 high.
\<close>

lemma detect_square_image:
  "fst (detect light_detector square_store 0) = Inr (Some (0, 0, 20, 20))"
proof -
  have f: "0 < fresh square_store" by (simp add: square_store_def)
  have s: "take 2 (shape (cells square_store 0)) = [100, 100]"
    by (simp add: square_store_def blank_image_def shape_zeros take_2)
  from detect_unfold [OF f s, of light_detector]
  show ?thesis
    by (simp add: light_detector_def one_light_def min_score_thresh_def geometry_def)
qed

text \<open>
  C2. The claim scales the box by the image's width W for \<open>left\<close> and \<open>right\<close> and by
  its height H for \<open>top\<close> and \<open>bottom\<close>. The code unpacks
  \<open>im_width, im_height = image_np.shape[0:2]\<close>, and the shape of an image array is
  (height, width, 3): on the driver's frame of 720 rows and 1280 columns, a traffic light
  with score 0.9 in the box (0.4, 0.4, 0.6, 0.6) comes back as WIDTH 144 and HEIGHT 256,
  where the claim's formulas, the same geometry with the width 1280 and the height 720
  in their places, give WIDTH 256 and HEIGHT 144.
\<close>

theorem C2_detect_swaps_width_and_height:
  "shape (cells camera_store 0) = [720, 1280, 3] \<and>
   fst (detect light_detector camera_store 0) = Inr (Some (0, 0, 144, 256)) \<and>
   geometry 1280 720 (4 / 10, 4 / 10, 6 / 10, 6 / 10) = (0, 0, 256, 144)"
proof -
  have f: "0 < fresh camera_store" by (simp add: camera_store_def)
  have s: "shape (cells camera_store 0) = [720, 1280, 3]"
    by (simp add: camera_store_def blank_image_def shape_zeros)
  have g: "geometry 1280 720 (4 / 10, 4 / 10, 6 / 10, 6 / 10) = (0, 0, 256, 144)"
    by (simp add: geometry_def)
  from detect_unfold [OF f camera_shape, of light_detector]
  have "fst (detect light_detector camera_store 0) = Inr (Some (0, 0, 144, 256))"
    by (simp add: light_detector_def one_light_def min_score_thresh_def geometry_def)
  with s g show ?thesis by simp
qed

text \<open>
  C9. When the image is an allocated array of at least two axes, the graph returns as
  many scores and classes as boxes, and no detection has both a score above
  \<open>min_score_thresh\<close> and a class that the label map names 'traffic light', then
  \<open>detect\<close> returns Python's \<open>None\<close>.
\<close>

theorem C9_detect_nothing_found:
  assumes "p < fresh s"
    and "2 \<le> length (shape (cells s p))"
    and "length (detection_scores (inference dt (cells s p))) = length (detection_boxes (inference dt (cells s p)))"
    and "length (detection_classes (inference dt (cells s p))) = length (detection_boxes (inference dt (cells s p)))"
    and "\<forall>i < length (detection_boxes (inference dt (cells s p))).
           \<not> (detection_scores (inference dt (cells s p)) ! i > min_score_thresh \<and>
              category_index dt (unat (detection_classes (inference dt (cells s p)) ! i)) = Some ''traffic light'')"
  shows "fst (detect dt s p) = Inr None"
proof -
  from assms(2) obtain w h rest where sh: "shape (cells s p) = w # h # rest"
    by (cases "shape (cells s p)"; cases "tl (shape (cells s p))") auto
  then have "take 2 (shape (cells s p)) = [w, h]" by (simp add: numeral_eq_Suc)
  from detect_unfold [OF assms(1) this]
  show ?thesis using assms(3-5) by (simp add: detect_loop_none)
qed

theorem C9_detect_nothing_found_witness:
  "0 < fresh camera_store \<and> 2 \<le> length (shape (cells camera_store 0)) \<and>
   detection_scores (inference blind_detector (cells camera_store 0)) = [9 / 10, 6 / 10] \<and>
   detection_classes (inference blind_detector (cells camera_store 0)) = [1, 10] \<and>
   fst (detect blind_detector camera_store 0) = Inr None"
proof -
  have 1: "0 < fresh camera_store" by (simp add: camera_store_def)
  have 2: "2 \<le> length (shape (cells camera_store 0))"
    by (simp add: camera_store_def blank_image_def shape_zeros)
  have od: "inference blind_detector (cells camera_store 0) = no_light"
    by (simp add: blind_detector_def)
  have 3: "length (detection_scores (inference blind_detector (cells camera_store 0))) =
           length (detection_boxes (inference blind_detector (cells camera_store 0)))"
    by (simp add: od no_light_def)
  have 4: "length (detection_classes (inference blind_detector (cells camera_store 0))) =
           length (detection_boxes (inference blind_detector (cells camera_store 0)))"
    by (simp add: od no_light_def)
  have 5: "\<forall>i < length (detection_boxes (inference blind_detector (cells camera_store 0))).
           \<not> (detection_scores (inference blind_detector (cells camera_store 0)) ! i > min_score_thresh \<and>
              category_index blind_detector
                (unat (detection_classes (inference blind_detector (cells camera_store 0)) ! i)) =
              Some ''traffic light'')"
    by (auto simp: od no_light_def blind_detector_def light_detector_def min_score_thresh_def
        less_Suc_eq)
  from C9_detect_nothing_found [OF 1 2 3 4 5] 1 2 show ?thesis
    by (simp add: od no_light_def)
qed

text \<open>
  C10. \<open>detect\<close> leaves the array it is given as it was, and every other array that
  existed before the call: the boxes and labels are drawn into a fresh copy, and that
  copy is what is written to \<open>detect.jpg\<close>.
\<close>

theorem C10_detect_leaves_image:
  assumes "p < fresh s"
  shows "cells (snd (detect dt s p)) p = cells s p \<and>
         (\<forall>q < fresh s. cells (snd (detect dt s p)) q = cells s q) \<and>
         files (snd (detect dt s p)) ''detect.jpg'' =
           Some (visualize dt (cells s p) (inference dt (cells s p)))"
proof -
  have "snd (detect dt s p) =
      s\<lparr>cells := (cells s)(fresh s := visualize dt (cells s p) (inference dt (cells s p))),
        fresh := fresh s + 1,
        files := (files s)(''detect.jpg'' \<mapsto> visualize dt (cells s p) (inference dt (cells s p)))\<rparr>"
    using assms by (simp add: detect_def copy_def Let_def split: list.splits)
  then show ?thesis using assms by simp
qed

theorem C10_detect_leaves_image_witness:
  "0 < fresh camera_store \<and>
   cells (snd (detect light_detector camera_store 0)) 0 = blank_image 720 1280 \<and>
   files (snd (detect light_detector camera_store 0)) ''detect.jpg'' =
     Some (visualize light_detector (blank_image 720 1280) one_light)"
proof -
  have 1: "0 < fresh camera_store" by (simp add: camera_store_def)
  from C10_detect_leaves_image [OF 1, of light_detector] 1 show ?thesis
    by (simp add: camera_store_def light_detector_def)
qed

section \<open>Properties of DeepQAgent\<close>

lemma new_agent_constructed: "DeepQAgent [4, 2] 5 () () = Inr new_agent"
  by (simp add: DeepQAgent_def new_agent_def)

lemma observe_total_reward:
  assumes "observe be a old_state action reward False = Inr a'"
  shows "total_reward a' = total_reward a + reward + reward"
  using assms
  by (auto simp: observe_def Let_def split: sum.splits)

lemma observe_new_agent:
  "\<exists>a'. observe zero_backend new_agent (frame2 0 0) 0 1 False = Inr a'"
  by (simp add: observe_def Let_def zero_backend_def new_agent_def np_max_def memory_append_def
      ReplayMemory_def MEMORY_SIZE_def frame2_def)

lemma train_noop:
  "num_actions_taken a < TRAIN_AFTER \<Longrightarrow> train be a draws = Some (Inr a)"
  by (simp add: train_def Let_def)

lemma train_gate:
  "train be a draws \<noteq> Some (Inr a) \<Longrightarrow>
     TRAIN_AFTER \<le> num_actions_taken a \<and> num_actions_taken a mod TRAIN_INTERVAL = 0"
  by (auto simp: train_def Let_def split: if_splits)

lemma train_network_t:
  "train_network be a draws = Some (Inr a') \<Longrightarrow> t a' = t a"
  by (auto simp: train_network_def Let_def split: option.splits sum.splits prod.splits)

lemma train_network_trace:
  "train_network be a draws = Some (Inr a') \<Longrightarrow>
     trace a' = trace a @ [RunGradsUpdate]"
  by (auto simp: train_network_def Let_def split: option.splits sum.splits prod.splits)

lemma train_t:
  assumes "train be a draws = Some (Inr a')"
  shows "t a' = t a \<or> (t a' = t a + 1 \<and> TRAIN_AFTER \<le> num_actions_taken a \<and>
            num_actions_taken a mod TRAIN_INTERVAL = 0)"
proof (cases "TRAIN_AFTER \<le> num_actions_taken a \<and> num_actions_taken a mod TRAIN_INTERVAL = 0")
  case False
  then have "train be a draws = Some (Inr a)" by (auto simp: train_def Let_def)
  with assms show ?thesis by simp
next
  case True
  with assms have "t a' = t a + 1"
    by (auto simp: train_def Let_def split: if_splits option.splits sum.splits
        dest!: train_network_t)
  with True show ?thesis by simp
qed



lemma memory_append_reward:
  "memory_append m s ac r d = Inr m' \<Longrightarrow> rewards m' ! pos m = fl32 r"
  by (auto simp: memory_append_def split: if_splits)

lemma memory_append_terminal:
  "memory_append m s ac r d = Inr m' \<Longrightarrow> terminals m' ! pos m = (if d then 1 else 0)"
  by (auto simp: memory_append_def split: if_splits)









text \<open>
  C1. The claim has \<open>observe\<close> add \<open>reward\<close> to \<open>total_reward\<close> once. The method holds
  the statement \<open>self.total_reward += reward\<close> twice, at lines 262 and 265: on the
  agent as constructed, whose \<open>total_reward\<close> is 0, one call with reward 1 and
  \<open>done = False\<close> leaves \<open>total_reward\<close> at 2.
\<close>

theorem C1_observe_adds_reward_twice:
  "total_reward new_agent = 0 \<and>
   (\<exists>a'. observe zero_backend new_agent (frame2 0 0) 0 1 False = Inr a' \<and> total_reward a' = 2)"
proof -
  from observe_new_agent obtain a' where
    a': "observe zero_backend new_agent (frame2 0 0) 0 1 False = Inr a'" by blast
  from observe_total_reward [OF a'] have "total_reward a' = 2" by (simp add: new_agent_def)
  with a' show ?thesis by (auto simp: new_agent_def)
qed




text \<open>
  C8. With \<open>TRAIN_AFTER\<close> = 500 and \<open>TRAIN_INTERVAL\<close> = 4: below 500 actions \<open>train\<close>
  returns the agent as it was, with nothing run, written or printed; a call that does
  anything else than that, be it a change of the agent, an exception or a sampling loop
  that does not end, has an action counter of at least 500 that is a multiple of 4; and
  \<open>t\<close> stays or advances by one, the latter only behind the same gate.
\<close>

theorem C8_train_gate:
  "TRAIN_AFTER = 500 \<and> TRAIN_INTERVAL = 4 \<and>
   (num_actions_taken a < 500 \<longrightarrow> train be a draws = Some (Inr a)) \<and>
   (train be a draws \<noteq> Some (Inr a) \<longrightarrow>
      500 \<le> num_actions_taken a \<and> num_actions_taken a mod 4 = 0) \<and>
   (\<forall>a'. train be a draws = Some (Inr a') \<longrightarrow>
      t a' = t a \<or> (t a' = t a + 1 \<and> 500 \<le> num_actions_taken a \<and> num_actions_taken a mod 4 = 0))"
proof -
  have c: "TRAIN_AFTER = 500" "TRAIN_INTERVAL = 4"
    by (simp_all add: TRAIN_AFTER_def TRAIN_INTERVAL_def)
  have 1: "num_actions_taken a < 500 \<longrightarrow> train be a draws = Some (Inr a)"
    using train_noop [of a be draws] c by simp
  have 2: "train be a draws \<noteq> Some (Inr a) \<longrightarrow>
      500 \<le> num_actions_taken a \<and> num_actions_taken a mod 4 = 0"
    using train_gate [of be a draws] c by simp
  have 3: "\<forall>a'. train be a draws = Some (Inr a') \<longrightarrow>
      t a' = t a \<or> (t a' = t a + 1 \<and> 500 \<le> num_actions_taken a \<and> num_actions_taken a mod 4 = 0)"
    using train_t [of be a draws] c by simp
  from c 1 2 3 show ?thesis by blast
qed

theorem C8_train_gate_witness:
  "train zero_backend (new_agent\<lparr>num_actions_taken := 499\<rparr>) [] =
     Some (Inr (new_agent\<lparr>num_actions_taken := 499\<rparr>)) \<and>
   train zero_backend (new_agent\<lparr>num_actions_taken := 500\<rparr>) [] \<noteq>
     Some (Inr (new_agent\<lparr>num_actions_taken := 500\<rparr>)) \<and>
   (500 :: nat) mod 4 = 0 \<and>
   (\<exists>a'. train zero_backend (new_agent\<lparr>num_actions_taken := 500\<rparr>) [] = Some (Inr a') \<and>
         t a' = t (new_agent\<lparr>num_actions_taken := 500\<rparr>) + 1)"
proof -
  have 1: "train zero_backend (new_agent\<lparr>num_actions_taken := 499\<rparr>) [] =
     Some (Inr (new_agent\<lparr>num_actions_taken := 499\<rparr>))"
    using C8_train_gate [of "new_agent\<lparr>num_actions_taken := 499\<rparr>" zero_backend "[]"]
    by simp
  have ev: "train zero_backend (new_agent\<lparr>num_actions_taken := 500\<rparr>) [] =
     Some (Inr (new_agent\<lparr>num_actions_taken := 500, trace := [PrintTrain 0 0 500], t := 1\<rparr>))"
    by (simp add: train_def Let_def new_agent_def TRAIN_AFTER_def TRAIN_INTERVAL_def
        INITIAL_REPLAY_SIZE_def)
  have 2: "train zero_backend (new_agent\<lparr>num_actions_taken := 500\<rparr>) [] \<noteq>
     Some (Inr (new_agent\<lparr>num_actions_taken := 500\<rparr>))"
    unfolding ev by (simp add: new_agent_def)
  from C8_train_gate [of "new_agent\<lparr>num_actions_taken := 500\<rparr>" zero_backend "[]"] 2
  have "num_actions_taken (new_agent\<lparr>num_actions_taken := 500\<rparr>) mod 4 = 0" by blast
  then have 3: "(500 :: nat) mod 4 = 0" by simp
  have 4: "\<exists>a'. train zero_backend (new_agent\<lparr>num_actions_taken := 500\<rparr>) [] = Some (Inr a') \<and>
         t a' = t (new_agent\<lparr>num_actions_taken := 500\<rparr>) + 1"
    unfolding ev by (simp add: new_agent_def)
  from 1 2 3 4 show ?thesis by blast
qed

section \<open>The annealing of epsilon\<close>

lemma epsilon_after_run:
  "(\<forall>j < 10000. FINAL_EPSILON < epsilon_after j \<and> epsilon_after j \<le> 1) \<and>
   epsilon_after 10000 = 7378697629473159168 / 2 ^ 66"
proof -
  have "epsilon_after 0 = of_int 73786976294838206464 / 2 ^ 66"
    by (simp add: INITIAL_EPSILON_def)
  from anneal_run_sound [OF anneal_run_10000 this] show ?thesis by simp
qed

lemma epsilon_after_10000:
  "epsilon_after 10000 = FINAL_EPSILON - 10661888 / 2 ^ 66"
  using epsilon_after_run by (simp add: FINAL_EPSILON_units final_units_def)

lemma epsilon_after_bounds:
  assumes "k \<le> 10000"
  shows "FINAL_EPSILON - 10661888 / 2 ^ 66 \<le> epsilon_after k \<and> epsilon_after k \<le> INITIAL_EPSILON"
proof (cases "k = 10000")
  case True
  then show ?thesis
    using epsilon_after_10000 epsilon_after_run
    by (simp add: INITIAL_EPSILON_def FINAL_EPSILON_units final_units_def)
next
  case False
  with assms have "k < 10000" by simp
  with epsilon_after_run have "FINAL_EPSILON < epsilon_after k" "epsilon_after k \<le> 1" by simp_all
  then show ?thesis by (simp add: INITIAL_EPSILON_def)
qed

lemma anneal_epsilon_after:
  assumes st: "epsilon_step a = fl (fl (INITIAL_EPSILON - FINAL_EPSILON) / real EXPLORATION_STEPS)"
    and k: "k \<le> 10000" and e: "epsilon a = epsilon_after k"
  shows "\<exists>k' \<le> 10000. epsilon (anneal a) = epsilon_after k'"
proof (cases "epsilon a > FINAL_EPSILON \<and> t a \<ge> INITIAL_REPLAY_SIZE")
  case False
  then have "anneal a = a" unfolding anneal_def by (rule if_not_P)
  with k e show ?thesis by auto
next
  case True
  have "k \<noteq> 10000"
  proof
    assume "k = 10000"
    with e epsilon_after_10000 have "epsilon a < FINAL_EPSILON" by simp
    with True show False by simp
  qed
  with k have k': "Suc k \<le> 10000" by simp
  from True have "epsilon (anneal a) = fl (epsilon a - epsilon_step a)" by (simp add: anneal_def)
  also have "\<dots> = epsilon_after (Suc k)" by (simp only: st e epsilon_after.simps)
  finally show ?thesis using k' by blast
qed

lemma anneal_epsilon_step: "epsilon_step (anneal a) = epsilon_step a"
  by (simp add: anneal_def)

lemma act_epsilon:
  assumes "act be a state u r = Inr (action, a')"
  shows "epsilon a' = epsilon (anneal a) \<and> epsilon_step a' = epsilon_step a \<and> t a' = t a"
proof -
  from assms obtain h where h: "history_append (history a) state = Inr h"
    and a': "a' = (anneal (a\<lparr>history := h\<rparr>))\<lparr>num_actions_taken :=
                    num_actions_taken (anneal (a\<lparr>history := h\<rparr>)) + 1\<rparr>"
    by (auto simp: act_def Let_def split: sum.splits)
  show ?thesis unfolding a' by (simp add: anneal_def)
qed

lemma observe_epsilon:
  assumes "observe be a old_state action reward done = Inr a'"
  shows "epsilon a' = epsilon a \<and> epsilon_step a' = epsilon_step a"
  using assms by (auto simp: observe_def Let_def split: sum.splits if_splits)

lemma train_network_epsilon:
  assumes "train_network be a draws = Some (Inr a')"
  shows "epsilon a' = epsilon a \<and> epsilon_step a' = epsilon_step a"
  using assms
  by (auto simp: train_network_def Let_def split: option.splits sum.splits prod.splits)

lemma train_epsilon:
  assumes "train be a draws = Some (Inr a')"
  shows "epsilon a' = epsilon a \<and> epsilon_step a' = epsilon_step a"
proof (cases "TRAIN_AFTER \<le> num_actions_taken a \<and> num_actions_taken a mod TRAIN_INTERVAL = 0")
  case False
  then have "train be a draws = Some (Inr a)" by (auto simp: train_def Let_def)
  with assms show ?thesis by simp
next
  case True
  with assms show ?thesis
    by (auto simp: train_def Let_def split: if_splits option.splits sum.splits
        dest!: train_network_epsilon)
qed

lemma test_epsilon:
  assumes "test be a state = Inr (action, a')"
  shows "epsilon a' = epsilon a \<and> epsilon_step a' = epsilon_step a"
  using assms by (auto simp: test_def Let_def split: sum.splits if_splits)

lemma reachable_epsilon:
  assumes "reachable be a"
  shows "epsilon_step a = fl (fl (INITIAL_EPSILON - FINAL_EPSILON) / real EXPLORATION_STEPS) \<and>
         (\<exists>k \<le> 10000. epsilon a = epsilon_after k)"
  using assms
proof (induction rule: reachable.induct)
  case (init shp n w wt a)
  then have "epsilon a = epsilon_after 0"
    and "epsilon_step a = fl (fl (INITIAL_EPSILON - FINAL_EPSILON) / real EXPLORATION_STEPS)"
    by (auto simp: DeepQAgent_def split: list.splits)
  then show ?case by blast
next
  case (act a state u r action a')
  then obtain k where k: "k \<le> 10000" "epsilon a = epsilon_after k"
    and st: "epsilon_step a = fl (fl (INITIAL_EPSILON - FINAL_EPSILON) / real EXPLORATION_STEPS)"
    by blast
  from anneal_epsilon_after [OF st k] act_epsilon [OF act.hyps(2)] st show ?case by simp
next
  case (observe a old_state action reward dn a')
  with observe_epsilon [OF observe.hyps(2)] show ?case by simp
next
  case (train a draws a')
  with train_epsilon [OF train.hyps(2)] show ?case by simp
next
  case (test a state action' a')
  with test_epsilon [OF test.hyps(2)] show ?case by simp
qed

lemma act_zero_backend:
  assumes h: "history a \<noteq> []" and n: "0 < nb_actions a"
  shows "\<exists>action a'. act zero_backend a (frame2 0 0) 0 0 = Inr (action, a') \<and>
           history a' \<noteq> [] \<and> nb_actions a' = nb_actions a"
proof -
  have am: "argmax [0, 0, 0, 0, 0] = Inr 0" by (simp add: argmax_def)
  show ?thesis
    using h n
    by (simp add: act_def history_append_def Let_def zero_backend_def am anneal_def)
qed

lemma act_times_epsilon:
  assumes "epsilon_step a = fl (fl (INITIAL_EPSILON - FINAL_EPSILON) / real EXPLORATION_STEPS)"
    and "epsilon a = epsilon_after k" and "k + n \<le> 10000"
    and "INITIAL_REPLAY_SIZE \<le> t a" and "history a \<noteq> []" and "0 < nb_actions a"
  shows "\<exists>a'. act_times zero_backend n a = Inr a' \<and> epsilon a' = epsilon_after (k + n)"
  using assms
proof (induction n arbitrary: a k)
  case 0
  then show ?case by simp
next
  case (Suc n)
  from act_zero_backend [OF Suc.prems(5) Suc.prems(6)]
  obtain action a1 where a1: "act zero_backend a (frame2 0 0) 0 0 = Inr (action, a1)"
    and h1: "history a1 \<noteq> []" and n1: "0 < nb_actions a1"
    using Suc.prems(6) by auto
  from Suc.prems(3) have "k < 10000" by simp
  with epsilon_after_run Suc.prems(2) have "FINAL_EPSILON < epsilon a" by simp
  with Suc.prems(4) have "epsilon (anneal a) = fl (epsilon a - epsilon_step a)"
    by (simp add: anneal_def)
  also have "\<dots> = epsilon_after (Suc k)"
    by (simp only: Suc.prems(1) Suc.prems(2) epsilon_after.simps)
  finally have e1: "epsilon a1 = epsilon_after (Suc k)"
    and s1: "epsilon_step a1 = fl (fl (INITIAL_EPSILON - FINAL_EPSILON) / real EXPLORATION_STEPS)"
    and t1: "INITIAL_REPLAY_SIZE \<le> t a1"
    using act_epsilon [OF a1] Suc.prems(1) Suc.prems(4) by simp_all
  from Suc.prems(3) have "Suc k + n \<le> 10000" by simp
  from Suc.IH [OF s1 e1 this t1 h1 n1]
  obtain a' where "act_times zero_backend n a1 = Inr a'" "epsilon a' = epsilon_after (Suc k + n)"
    by blast
  with a1 show ?case by simp
qed

lemma act_num_actions_taken:
  assumes "act be a state u r = Inr (action, a')"
  shows "num_actions_taken a' = num_actions_taken a + 1"
  using assms by (auto simp: act_def anneal_def Let_def split: sum.splits if_splits)

lemma act_times_reachable:
  "reachable be a \<Longrightarrow> act_times be n a = Inr a' \<Longrightarrow> reachable be a'"
proof (induction n arbitrary: a)
  case 0
  then show ?case by simp
next
  case (Suc n)
  from Suc.prems(2) obtain action a1 where a1: "act be a (frame2 0 0) 0 0 = Inr (action, a1)"
    and rest: "act_times be n a1 = Inr a'"
    by (auto split: sum.splits)
  from reachable.act [OF Suc.prems(1) a1] have "reachable be a1" .
  from Suc.IH [OF this rest] show ?case .
qed

text \<open>Before the replay memory counts as populated, \<open>act\<close> only counts the actions.\<close>

lemma act_times_before_replay:
  assumes "t a < INITIAL_REPLAY_SIZE" and "history a \<noteq> []" and "0 < nb_actions a"
  shows "\<exists>a'. act_times zero_backend n a = Inr a' \<and> t a' = t a \<and> epsilon a' = epsilon a \<and>
              epsilon_step a' = epsilon_step a \<and> history a' \<noteq> [] \<and> nb_actions a' = nb_actions a \<and>
              num_actions_taken a' = num_actions_taken a + n"
  using assms
proof (induction n arbitrary: a)
  case 0
  then show ?case by simp
next
  case (Suc n)
  from act_zero_backend [OF Suc.prems(2) Suc.prems(3)]
  obtain action a1 where a1: "act zero_backend a (frame2 0 0) 0 0 = Inr (action, a1)"
    and h1: "history a1 \<noteq> []" and n1: "nb_actions a1 = nb_actions a"
    by auto
  from Suc.prems(1) have "anneal a = a" unfolding anneal_def by simp
  with act_epsilon [OF a1] have e1: "epsilon a1 = epsilon a" "epsilon_step a1 = epsilon_step a"
    "t a1 = t a" by simp_all
  from act_num_actions_taken [OF a1] have c1: "num_actions_taken a1 = num_actions_taken a + 1" .
  from Suc.prems(1) e1 have t1: "t a1 < INITIAL_REPLAY_SIZE" by simp
  from Suc.prems(3) n1 have p1: "0 < nb_actions a1" by simp
  from Suc.IH [OF t1 h1 p1] obtain a' where
    "act_times zero_backend n a1 = Inr a'" "t a' = t a1" "epsilon a' = epsilon a1"
    "epsilon_step a' = epsilon_step a1" "history a' \<noteq> []" "nb_actions a' = nb_actions a1"
    "num_actions_taken a' = num_actions_taken a1 + n"
    by blast
  with a1 e1 n1 c1 show ?case by simp
qed

lemma train_before_replay:
  assumes "t a < INITIAL_REPLAY_SIZE" and "TRAIN_AFTER \<le> num_actions_taken a"
    and "num_actions_taken a mod TRAIN_INTERVAL = 0"
  shows "train be a draws =
     Some (Inr (a\<lparr>trace := trace a @ [PrintTrain (episode a) (t a) (num_actions_taken a)],
                  t := t a + 1\<rparr>))"
  using assms by (simp add: train_def Let_def)

lemma reach_next_step:
  assumes r: "reachable zero_backend a" and tl: "t a < INITIAL_REPLAY_SIZE"
    and h: "history a \<noteq> []" and n: "0 < nb_actions a"
  shows "\<exists>a'. reachable zero_backend a' \<and> t a' = t a + 1 \<and> epsilon a' = epsilon a \<and>
              epsilon_step a' = epsilon_step a \<and> history a' \<noteq> [] \<and> 0 < nb_actions a'"
proof -
  define m where "m = 3 * num_actions_taken a + 2000"
  from act_times_before_replay [OF tl h n, of m] obtain a1 where
    a1: "act_times zero_backend m a = Inr a1" and t1: "t a1 = t a" and e1: "epsilon a1 = epsilon a"
    and s1: "epsilon_step a1 = epsilon_step a" and h1: "history a1 \<noteq> []"
    and n1: "nb_actions a1 = nb_actions a"
    and c1: "num_actions_taken a1 = num_actions_taken a + m"
    by blast
  have r1: "reachable zero_backend a1" by (rule act_times_reachable [OF r a1])
  have c: "num_actions_taken a1 = 4 * (num_actions_taken a + 500)" using c1 by (simp add: m_def)
  then have g1: "TRAIN_AFTER \<le> num_actions_taken a1" by (simp add: TRAIN_AFTER_def)
  from c have g2: "num_actions_taken a1 mod TRAIN_INTERVAL = 0" by (simp add: TRAIN_INTERVAL_def)
  from tl t1 have tl1: "t a1 < INITIAL_REPLAY_SIZE" by simp
  let ?a2 = "a1\<lparr>trace := trace a1 @ [PrintTrain (episode a1) (t a1) (num_actions_taken a1)],
                t := t a1 + 1\<rparr>"
  have "train zero_backend a1 [] = Some (Inr ?a2)"
    by (rule train_before_replay [OF tl1 g1 g2])
  from reachable.train [OF r1 this] have "reachable zero_backend ?a2" .
  moreover have "t ?a2 = t a + 1" "epsilon ?a2 = epsilon a" "epsilon_step ?a2 = epsilon_step a"
    "history ?a2 \<noteq> []" "0 < nb_actions ?a2"
    using t1 e1 s1 h1 n1 n by simp_all
  ultimately show ?thesis by blast
qed

lemma reach_step:
  assumes "k \<le> INITIAL_REPLAY_SIZE"
  shows "\<exists>a. reachable zero_backend a \<and> t a = k \<and> epsilon a = epsilon new_agent \<and>
             epsilon_step a = epsilon_step new_agent \<and> history a \<noteq> [] \<and> 0 < nb_actions a"
  using assms
proof (induction k)
  case 0
  have "reachable zero_backend new_agent" by (rule reachable.init [OF new_agent_constructed])
  moreover have "t new_agent = 0" "history new_agent \<noteq> []" "0 < nb_actions new_agent"
    by (simp_all add: new_agent_def)
  ultimately show ?case by blast
next
  case (Suc k)
  then obtain a where a: "reachable zero_backend a" "t a = k" "epsilon a = epsilon new_agent"
    "epsilon_step a = epsilon_step new_agent" "history a \<noteq> []" "0 < nb_actions a"
    by auto
  from Suc.prems a(2) have "t a < INITIAL_REPLAY_SIZE" by simp
  from reach_next_step [OF a(1) this a(5) a(6)] a show ?case by auto
qed

lemma reachable_below_final:
  "\<exists>a. reachable zero_backend a \<and> epsilon a = epsilon_after 10000"
proof -
  from reach_step [of INITIAL_REPLAY_SIZE] obtain a where
    a: "reachable zero_backend a" "t a = INITIAL_REPLAY_SIZE" "epsilon a = epsilon new_agent"
    "epsilon_step a = epsilon_step new_agent" "history a \<noteq> []" "0 < nb_actions a"
    by auto
  have 1: "epsilon_step a = fl (fl (INITIAL_EPSILON - FINAL_EPSILON) / real EXPLORATION_STEPS)"
    using a(4) by (simp add: new_agent_def)
  have 2: "epsilon a = epsilon_after 0" using a(3) by (simp add: new_agent_def)
  have 3: "0 + 10000 \<le> (10000::nat)" by simp
  have 4: "INITIAL_REPLAY_SIZE \<le> t a" using a(2) by simp
  from act_times_epsilon [OF 1 2 3 4 a(5) a(6)]
  obtain a' where a': "act_times zero_backend 10000 a = Inr a'"
    "epsilon a' = epsilon_after 10000" by auto
  from act_times_reachable [OF a(1) a'(1)] a'(2) show ?thesis by blast
qed

text \<open>
  C3. The claim has \<open>epsilon\<close> equal to \<open>FINAL_EPSILON\<close> after exactly
  \<open>EXPLORATION_STEPS\<close> decrements and never below it. That holds for exact
  arithmetic; the code subtracts Python floats, and the run that follows the theorem
  ends at a value under \<open>FINAL_EPSILON\<close>. What the code does, for every agent the
  driver can hold: \<open>epsilon_step\<close> is the binary64 value of
  \<open>(INITIAL_EPSILON - FINAL_EPSILON) / EXPLORATION_STEPS\<close>; a call of \<open>act\<close> with
  \<open>epsilon > FINAL_EPSILON\<close> and \<open>t \<ge> INITIAL_REPLAY_SIZE\<close> replaces \<open>epsilon\<close> by the
  binary64 difference \<open>epsilon - epsilon_step\<close>, and any other call leaves it;
  \<open>epsilon\<close> is always one of the values \<open>epsilon_after k\<close> with \<open>k\<close> at most 10000;
  the first 10000 of them are above \<open>FINAL_EPSILON\<close>, so that exactly 10000 decrements
  take place, and the last is \<open>FINAL_EPSILON - 10661888 \<cdot> 2\<^sup>-\<^sup>6\<^sup>6\<close> (0.09999999999985551,
  about 1.4e-13 under \<open>FINAL_EPSILON\<close>), where the annealing stops; hence
  \<open>FINAL_EPSILON - 10661888 \<cdot> 2\<^sup>-\<^sup>6\<^sup>6 \<le> epsilon \<le> INITIAL_EPSILON\<close> throughout.
\<close>

theorem C3_epsilon_annealing:
  assumes "reachable be a"
  shows "INITIAL_EPSILON = 1 \<and> EXPLORATION_STEPS = 10000 \<and>
         FINAL_EPSILON = 3602879701896397 / 2 ^ 55 \<and>
         epsilon_step a = fl (fl (INITIAL_EPSILON - FINAL_EPSILON) / real EXPLORATION_STEPS) \<and>
         (\<forall>state u r action a'. act be a state u r = Inr (action, a') \<longrightarrow>
            epsilon a' = (if epsilon a > FINAL_EPSILON \<and> t a \<ge> INITIAL_REPLAY_SIZE
                          then fl (epsilon a - epsilon_step a) else epsilon a)) \<and>
         (\<exists>k \<le> EXPLORATION_STEPS. epsilon a = epsilon_after k) \<and>
         (\<forall>k < EXPLORATION_STEPS. FINAL_EPSILON < epsilon_after k) \<and>
         epsilon_after EXPLORATION_STEPS = FINAL_EPSILON - 10661888 / 2 ^ 66 \<and>
         FINAL_EPSILON - 10661888 / 2 ^ 66 \<le> epsilon a \<and> epsilon a \<le> INITIAL_EPSILON"
proof -
  have c: "INITIAL_EPSILON = 1" "EXPLORATION_STEPS = 10000"
    by (simp_all add: INITIAL_EPSILON_def EXPLORATION_STEPS_def)
  have f: "FINAL_EPSILON = 3602879701896397 / 2 ^ 55"
    by (simp add: FINAL_EPSILON_units final_units_def)
  from reachable_epsilon [OF assms] obtain k where
    st: "epsilon_step a = fl (fl (INITIAL_EPSILON - FINAL_EPSILON) / real EXPLORATION_STEPS)"
    and k: "k \<le> 10000" "epsilon a = epsilon_after k"
    by blast
  have a: "\<forall>state u r action a'. act be a state u r = Inr (action, a') \<longrightarrow>
            epsilon a' = (if epsilon a > FINAL_EPSILON \<and> t a \<ge> INITIAL_REPLAY_SIZE
                          then fl (epsilon a - epsilon_step a) else epsilon a)"
  proof (intro allI impI)
    fix state u r action a'
    assume h: "act be a state u r = Inr (action, a')"
    from act_epsilon [OF h] show "epsilon a' = (if epsilon a > FINAL_EPSILON \<and> t a \<ge> INITIAL_REPLAY_SIZE
                          then fl (epsilon a - epsilon_step a) else epsilon a)"
      by (simp add: anneal_def)
  qed
  have e: "\<exists>k \<le> EXPLORATION_STEPS. epsilon a = epsilon_after k"
    using k c by auto
  have g: "\<forall>k < EXPLORATION_STEPS. FINAL_EPSILON < epsilon_after k"
    using epsilon_after_run c by simp
  have l: "epsilon_after EXPLORATION_STEPS = FINAL_EPSILON - 10661888 / 2 ^ 66"
    using epsilon_after_10000 c by simp
  have b: "FINAL_EPSILON - 10661888 / 2 ^ 66 \<le> epsilon a" "epsilon a \<le> INITIAL_EPSILON"
    using epsilon_after_bounds [OF k(1)] k(2) by simp_all
  from c f st a e g l b show ?thesis by blast
qed

theorem C3_epsilon_annealing_witness:
  "reachable zero_backend new_agent \<and>
   (\<exists>a'. act zero_backend new_agent (frame2 0 0) 0 0 = Inr (0, a') \<and> epsilon a' = 1) \<and>
   FINAL_EPSILON < epsilon_after 0 \<and>
   FINAL_EPSILON - 10661888 / 2 ^ 66 \<le> epsilon new_agent \<and> epsilon new_agent \<le> INITIAL_EPSILON"
proof -
  have r: "reachable zero_backend new_agent"
    by (rule reachable.init [OF new_agent_constructed])
  have am: "argmax [0, 0, 0, 0, 0] = Inr 0" by (simp add: argmax_def)
  have "\<exists>a'. act zero_backend new_agent (frame2 0 0) 0 0 = Inr (0, a')"
    by (simp add: act_def history_append_def Let_def zero_backend_def am new_agent_def
        INITIAL_REPLAY_SIZE_def)
  then obtain a' where a': "act zero_backend new_agent (frame2 0 0) 0 0 = Inr (0, a')" by blast
  note th = C3_epsilon_annealing [OF r]
  from th a' have "epsilon a' = (if epsilon new_agent > FINAL_EPSILON \<and> t new_agent \<ge> INITIAL_REPLAY_SIZE
                          then fl (epsilon new_agent - epsilon_step new_agent) else epsilon new_agent)"
    by blast
  then have 1: "epsilon a' = 1"
    by (simp add: new_agent_def INITIAL_REPLAY_SIZE_def INITIAL_EPSILON_def)
  from th have "\<forall>k < EXPLORATION_STEPS. FINAL_EPSILON < epsilon_after k" by blast
  moreover have "0 < EXPLORATION_STEPS" by (simp add: EXPLORATION_STEPS_def)
  ultimately have 2: "FINAL_EPSILON < epsilon_after 0" by blast
  from th have 3: "FINAL_EPSILON - 10661888 / 2 ^ 66 \<le> epsilon new_agent"
    "epsilon new_agent \<le> INITIAL_EPSILON" by blast+
  from r a' 1 2 3 show ?thesis by blast
qed

theorem C3_epsilon_below_final:
  "(\<exists>a. reachable zero_backend a \<and> epsilon a = epsilon_after EXPLORATION_STEPS \<and>
        epsilon a \<noteq> FINAL_EPSILON \<and> \<not> FINAL_EPSILON \<le> epsilon a) \<and>
   epsilon exploring_agent = INITIAL_EPSILON \<and> INITIAL_REPLAY_SIZE \<le> t exploring_agent \<and>
   (\<exists>a'. act_times zero_backend EXPLORATION_STEPS exploring_agent = Inr a' \<and>
         epsilon a' = epsilon_after EXPLORATION_STEPS \<and>
         epsilon a' \<noteq> FINAL_EPSILON \<and> \<not> FINAL_EPSILON \<le> epsilon a')"
proof -
  have lt: "epsilon_after 10000 < FINAL_EPSILON"
    using epsilon_after_10000 by simp
  from reachable_below_final obtain a0 where
    a0: "reachable zero_backend a0" "epsilon a0 = epsilon_after 10000" by blast
  with lt have "epsilon a0 \<noteq> FINAL_EPSILON" "\<not> FINAL_EPSILON \<le> epsilon a0" by simp_all
  with a0 have r: "\<exists>a. reachable zero_backend a \<and> epsilon a = epsilon_after 10000 \<and>
        epsilon a \<noteq> FINAL_EPSILON \<and> \<not> FINAL_EPSILON \<le> epsilon a"
    by blast
  have 1: "epsilon_step exploring_agent = fl (fl (INITIAL_EPSILON - FINAL_EPSILON) / real EXPLORATION_STEPS)"
    by (simp add: exploring_agent_def new_agent_def)
  have 2: "epsilon exploring_agent = epsilon_after 0"
    by (simp add: exploring_agent_def new_agent_def)
  have 3: "0 + 10000 \<le> (10000::nat)" by simp
  have 4: "INITIAL_REPLAY_SIZE \<le> t exploring_agent" by (simp add: exploring_agent_def)
  have 5: "history exploring_agent \<noteq> []"
    by (simp add: exploring_agent_def new_agent_def)
  have 6: "0 < nb_actions exploring_agent" by (simp add: exploring_agent_def new_agent_def)
  from act_times_epsilon [OF 1 2 3 4 5 6]
  obtain a' where a': "act_times zero_backend 10000 exploring_agent = Inr a'"
    "epsilon a' = epsilon_after 10000" by auto
  with lt have b: "epsilon a' \<noteq> FINAL_EPSILON" "\<not> FINAL_EPSILON \<le> epsilon a'" by simp_all
  have i: "epsilon exploring_agent = INITIAL_EPSILON"
    by (simp add: exploring_agent_def new_agent_def)
  have "\<exists>a'. act_times zero_backend 10000 exploring_agent = Inr a' \<and>
         epsilon a' = epsilon_after 10000 \<and>
         epsilon a' \<noteq> FINAL_EPSILON \<and> \<not> FINAL_EPSILON \<le> epsilon a'"
    using a' b by blast
  with r show ?thesis unfolding EXPLORATION_STEPS_def using i 4 by blast
qed


end
